theory Spec2Isabelle
  imports Complex_Main
begin

section \<open>Stored values and the JavaScript operations applied to them\<close>

text \<open>
  The program (\<^verbatim>\<open>src/js/api.js\<close>) keeps its data in Firestore documents. A product
  document holds its stock in the nested field
  \<^verbatim>\<open>colors.<color>.sizes.<size>.quantity\<close>. The source reads that field by key
  (\<^verbatim>\<open>product.colors?.[color]?.sizes?.[size]?.quantity || 0\<close>) and writes it through a
  dot-separated field path built by string interpolation, so the \<^verbatim>\<open>colors\<close> field is
  modelled as the tree of nested maps it is. The leaves are the values the two operations
  can store there: an integer, NaN, or the text JavaScript produces when a number is added
  to an object (\<^verbatim>\<open>"[object Object]" + n\<close>).

  Modelling decisions, stated once:
  \<^item> quantities are integers; prices and costs are values of a type \<open>'n\<close> left open, and the
    arithmetic saveNewInvoice applies to them (JavaScript's addition and multiplication of
    numbers, which round) is a parameter, so nothing is assumed of it;
  \<^item> the identifiers of products, defects and shipments are taken as valid Firestore
    identifiers (non-empty, no slash);
  \<^item> there is a single writer (spec section 5), so a precondition on the version a document
    was read at holds at commit; how often the store refuses a commit with a transient
    error, after which the transaction body is run again, and whether it accepts a commit
    or a write at all are parameters of each operation.
\<close>

type_synonym docId = string

datatype fval =
    Num int
  | NaN
  | ObjText "int list"  \<comment> \<open>the string \<^verbatim>\<open>[object Object]\<close> followed by these numbers' digits\<close>
  | Obj "string \<Rightarrow> fval option"  \<comment> \<open>a nested map\<close>

text \<open>\<^verbatim>\<open>x?.[k]\<close>: undefined when \<open>x\<close> is undefined or has no such property.\<close>

fun getProp :: "fval option \<Rightarrow> string \<Rightarrow> fval option" where
  "getProp (Some (Obj m)) k = m k"
| "getProp _ k = None"

text \<open>\<^verbatim>\<open>x || 0\<close>: undefined, 0 and NaN are falsy; a non-empty string and an object are truthy.\<close>

fun orZero :: "fval option \<Rightarrow> fval" where
  "orZero None = Num 0"
| "orZero (Some NaN) = Num 0"
| "orZero (Some v) = v"

text \<open>\<^verbatim>\<open>q > x\<close> for a number \<open>q\<close>: an object or a non-numeric string converts to NaN, and every
  comparison with NaN is false.\<close>

fun js_gt :: "int \<Rightarrow> fval \<Rightarrow> bool" where
  "js_gt q (Num n) = (q > n)"
| "js_gt q _ = False"

text \<open>\<^verbatim>\<open>x - q\<close> and \<^verbatim>\<open>x + q\<close> for a number \<open>q\<close>: subtraction converts to a number (NaN for an
  object or such a string), addition concatenates strings once \<open>x\<close> is not a number.\<close>

fun js_sub :: "fval \<Rightarrow> int \<Rightarrow> fval" where
  "js_sub (Num n) q = Num (n - q)"
| "js_sub _ q = NaN"

fun js_add :: "fval \<Rightarrow> int \<Rightarrow> fval" where
  "js_add (Num n) q = Num (n + q)"
| "js_add NaN q = NaN"
| "js_add (ObjText ns) q = ObjText (ns @ [q])"
| "js_add (Obj m) q = ObjText [q]"

record 'n product =
  p_id :: docId
  name :: string
  purchasePrice :: 'n
  colors :: "fval option"

record 'n defect =
  d_id :: docId
  d_productId :: docId
  d_color :: string
  d_size :: string
  d_quantity :: int
  d_reason :: string
  d_purchasePrice :: 'n
  d_supplierId :: string
  d_shipmentDate :: string

record 'n shipmentLine =
  l_productId :: docId
  l_productName :: string
  l_color :: string
  l_size :: string
  l_quantity :: int
  l_purchasePrice :: 'n

record 'n shipment =
  s_id :: docId
  s_supplierId :: string
  s_date :: string
  s_shippingCost :: 'n
  s_items :: "'n shipmentLine list"
  s_totalCost :: 'n

text \<open>\<^verbatim>\<open>product.colors?.[color]?.sizes?.[size]?.quantity || 0\<close>\<close>

definition currentQtyOf :: "'n product \<Rightarrow> string \<Rightarrow> string \<Rightarrow> fval" where
  "currentQtyOf p color sz =
     orZero (getProp (getProp (getProp (getProp (colors p) color) ''sizes'') sz) ''quantity'')"

section \<open>Field paths\<close>

text \<open>
  \<^verbatim>\<open>`colors.${color}.sizes.${size}.quantity`\<close> is passed to \<^verbatim>\<open>transaction.update\<close> as the
  key of the update data. Firestore reads such a key as a dot-separated field path: it
  rejects a path containing one of \<^verbatim>\<open>~ * / [ ]\<close> or an empty segment, and otherwise
  addresses the nested field named by the segments.
\<close>

definition quantityPath :: "string \<Rightarrow> string \<Rightarrow> string" where
  "quantityPath color sz = ''colors.'' @ color @ ''.sizes.'' @ sz @ ''.quantity''"

fun splitDots :: "string \<Rightarrow> string list" where
  "splitDots [] = [[]]"
| "splitDots (c # cs) =
     (if c = CHR ''.'' then [] # splitDots cs
      else (case splitDots cs of s # ss \<Rightarrow> (c # s) # ss | [] \<Rightarrow> [[c]]))"

definition reservedChar :: "char \<Rightarrow> bool" where
  "reservedChar c = (c = CHR ''~'' \<or> c = CHR ''*'' \<or> c = CHR ''/'' \<or> c = CHR ''['' \<or> c = CHR '']'')"

datatype failure =
    ProductNotFound docId        \<comment> \<open>\<^verbatim>\<open>Product with ID ... not found.\<close>\<close>
  | InsufficientStock int fval   \<comment> \<open>\<^verbatim>\<open>Cannot mark ... as defective. Only ... in stock.\<close>\<close>
  | ProductDataNotFound docId    \<comment> \<open>\<^verbatim>\<open>Product data for ... not found.\<close>\<close>
  | TypeError                    \<comment> \<open>a property read on undefined\<close>
  | InvalidFieldPath string      \<comment> \<open>Firestore: invalid field path\<close>
  | ReadAfterWrite               \<comment> \<open>Firestore: all reads must be executed before all writes\<close>
  | UpdateOfMissingDocument      \<comment> \<open>Firestore: can't update a document that doesn't exist\<close>
  | InvalidDocumentPath          \<comment> \<open>Firestore: \<^verbatim>\<open>doc()\<close> called with an empty path\<close>
  | StoreRejected                \<comment> \<open>the store did not accept the write or commit\<close>

definition fieldPathFromDotSeparatedString :: "string \<Rightarrow> failure + string list" where
  "fieldPathFromDotSeparatedString path =
     (if list_ex reservedChar path then Inl (InvalidFieldPath path)
      else if list_ex (\<lambda>s. s = []) (splitDots path) then Inl (InvalidFieldPath path)
      else Inr (splitDots path))"

text \<open>Setting a nested field: intermediate maps are created, a value on the way that is
  not a map is replaced by one, and the siblings of the addressed field are kept.\<close>

fun setPath :: "string list \<Rightarrow> fval \<Rightarrow> fval option \<Rightarrow> fval" where
  "setPath [] v old = v"
| "setPath (k # ks) v old =
     (case old of
        Some (Obj m) \<Rightarrow> Obj (m(k \<mapsto> setPath ks v (m k)))
      | _ \<Rightarrow> Obj (Map.empty(k \<mapsto> setPath ks v None)))"

text \<open>Only the \<^verbatim>\<open>colors\<close> field of a product is kept as a tree; the paths the program
  builds all start with \<^verbatim>\<open>colors\<close>, a write to any other field leaves the modelled
  fields as they are.\<close>

definition updateFields :: "string list \<Rightarrow> fval \<Rightarrow> 'n product \<Rightarrow> 'n product" where
  "updateFields segs v p =
     (case segs of
        [] \<Rightarrow> p
      | f # rest \<Rightarrow> if f = ''colors'' then p\<lparr>colors := Some (setPath rest v (colors p))\<rparr> else p)"

section \<open>The store and its transactions\<close>

record 'n db =
  products :: "docId \<rightharpoonup> 'n product"
  defects :: "docId \<rightharpoonup> 'n defect"
  shipments :: "docId \<rightharpoonup> 'n shipment"

datatype docRef = ProductRef docId | DefectRef docId | ShipmentRef docId

datatype 'n mutation =
    SetProduct docId "'n product"
  | UpdateProduct docId "string list" fval
  | SetDefect docId "'n defect"
  | SetShipment docId "'n shipment"

text \<open>
  The state of a Firestore client transaction: the buffered writes, the error a write
  has recorded for commit, whether each document read existed, and the documents written.
  \<^item> \<^verbatim>\<open>get\<close> throws once a write is buffered (reads must come before writes);
  \<^item> \<^verbatim>\<open>set\<close> buffers a write;
  \<^item> \<^verbatim>\<open>update\<close> throws on an invalid field path; for a document that was read and did
    not exist (and has not been written) it records the error
    \<^verbatim>\<open>Can't update a document that doesn't exist\<close>, which commit then throws; otherwise
    it buffers the write, which requires the document to exist when it is applied;
  \<^item> commit applies the buffered writes in order, all or none.
\<close>

record 'n transaction =
  mutations :: "'n mutation list"
  lastTransactionError :: "failure option"
  readVersions :: "docRef \<rightharpoonup> bool"
  writtenDocs :: "docRef set"

definition newTransaction :: "'n transaction" where
  "newTransaction =
     \<lparr>mutations = [], lastTransactionError = None, readVersions = Map.empty, writtenDocs = {}\<rparr>"

definition tx_get ::
  "'n db \<Rightarrow> docId \<Rightarrow> 'n transaction \<Rightarrow> failure + ('n product option \<times> 'n transaction)" where
  "tx_get d pid tx =
     (if mutations tx \<noteq> [] then Inl ReadAfterWrite
      else Inr (products d pid,
                tx\<lparr>readVersions := (readVersions tx)(ProductRef pid \<mapsto> (products d pid \<noteq> None))\<rparr>))"

definition mutationRef :: "'n mutation \<Rightarrow> docRef" where
  "mutationRef m =
     (case m of
        SetProduct i _ \<Rightarrow> ProductRef i
      | UpdateProduct i _ _ \<Rightarrow> ProductRef i
      | SetDefect i _ \<Rightarrow> DefectRef i
      | SetShipment i _ \<Rightarrow> ShipmentRef i)"

definition tx_set :: "'n mutation \<Rightarrow> 'n transaction \<Rightarrow> 'n transaction" where
  "tx_set m tx =
     tx\<lparr>mutations := mutations tx @ [m], writtenDocs := insert (mutationRef m) (writtenDocs tx)\<rparr>"

definition tx_update ::
  "docId \<Rightarrow> string \<Rightarrow> fval \<Rightarrow> 'n transaction \<Rightarrow> failure + 'n transaction" where
  "tx_update pid path v tx =
     (case fieldPathFromDotSeparatedString path of
        Inl e \<Rightarrow> Inl e
      | Inr segs \<Rightarrow>
          Inr (if ProductRef pid \<notin> writtenDocs tx \<and> readVersions tx (ProductRef pid) = Some False
               then tx\<lparr>lastTransactionError := Some UpdateOfMissingDocument,
                       writtenDocs := insert (ProductRef pid) (writtenDocs tx)\<rparr>
               else tx\<lparr>mutations := mutations tx @ [UpdateProduct pid segs v],
                       writtenDocs := insert (ProductRef pid) (writtenDocs tx)\<rparr>))"

fun applyMutation :: "'n mutation \<Rightarrow> 'n db \<Rightarrow> 'n db option" where
  "applyMutation (SetProduct i p) d = Some (d\<lparr>products := (products d)(i \<mapsto> p)\<rparr>)"
| "applyMutation (UpdateProduct i segs v) d =
     (case products d i of
        None \<Rightarrow> None
      | Some p \<Rightarrow> Some (d\<lparr>products := (products d)(i \<mapsto> updateFields segs v p)\<rparr>))"
| "applyMutation (SetDefect i x) d = Some (d\<lparr>defects := (defects d)(i \<mapsto> x)\<rparr>)"
| "applyMutation (SetShipment i x) d = Some (d\<lparr>shipments := (shipments d)(i \<mapsto> x)\<rparr>)"

fun applyMutations :: "'n mutation list \<Rightarrow> 'n db \<Rightarrow> 'n db option" where
  "applyMutations [] d = Some d"
| "applyMutations (m # ms) d =
     (case applyMutation m d of None \<Rightarrow> None | Some d' \<Rightarrow> applyMutations ms d')"

definition commit :: "bool \<Rightarrow> 'n transaction \<Rightarrow> 'n db \<Rightarrow> failure + 'n db" where
  "commit storeAccepts tx d =
     (case lastTransactionError tx of
        Some e \<Rightarrow> Inl e
      | None \<Rightarrow>
          if \<not> storeAccepts then Inl StoreRejected
          else (case applyMutations (mutations tx) d of
                  None \<Rightarrow> Inl UpdateOfMissingDocument
                | Some d' \<Rightarrow> Inr d'))"

text \<open>
  \<^verbatim>\<open>runTransaction(db, updateFunction)\<close>: the update function is run on a fresh transaction
  and the transaction is committed. An error thrown by the function, or by commit, leaves
  the store as it was. The errors of this model's function bodies and writes are final;
  a commit the store refuses with a transient error is answered by running the function
  again on a fresh transaction, five attempts at most. The variables of the enclosing
  function that the update function assigns (\<open>vars\<close>) keep their values from one attempt
  to the next. \<open>retries\<close> is the number of commits the store refuses with a transient error
  before it answers for good, \<open>storeAccepts\<close> whether it then accepts.
\<close>

fun attempt ::
  "nat \<Rightarrow> nat \<Rightarrow> bool \<Rightarrow> 'n db \<Rightarrow> ('o \<Rightarrow> 'n transaction \<Rightarrow> failure + 'o \<times> 'n transaction) \<Rightarrow> 'o
     \<Rightarrow> failure + 'o \<times> 'n db" where
  "attempt 0 retries storeAccepts d updateFunction vars = Inl StoreRejected"
| "attempt (Suc attemptsRemaining) retries storeAccepts d updateFunction vars =
     (case updateFunction vars newTransaction of
        Inl e \<Rightarrow> Inl e
      | Inr (vars', tx) \<Rightarrow>
          if lastTransactionError tx = None \<and> 0 < retries
          then attempt attemptsRemaining (retries - 1) storeAccepts d updateFunction vars'
          else (case commit storeAccepts tx d of
                  Inl e \<Rightarrow> Inl e
                | Inr d' \<Rightarrow> Inr (vars', d')))"

definition runTransaction ::
  "nat \<Rightarrow> bool \<Rightarrow> 'n db \<Rightarrow> ('o \<Rightarrow> 'n transaction \<Rightarrow> failure + 'o \<times> 'n transaction) \<Rightarrow> 'o
     \<Rightarrow> failure + 'o \<times> 'n db" where
  "runTransaction retries storeAccepts d updateFunction vars =
     attempt 5 retries storeAccepts d updateFunction vars"

section \<open>addDefectiveItem\<close>

definition addDefectiveItem_body ::
  "'n db \<Rightarrow> 'n defect \<Rightarrow> 'n transaction \<Rightarrow> failure + 'n transaction" where
  "addDefectiveItem_body d defectData tx =
     (case tx_get d (d_productId defectData) tx of
        Inl e \<Rightarrow> Inl e
      | Inr (productDoc, tx1) \<Rightarrow>
          (case productDoc of
             None \<Rightarrow> Inl (ProductNotFound (d_productId defectData))
           | Some product \<Rightarrow>
               let currentQty = currentQtyOf product (d_color defectData) (d_size defectData) in
               if js_gt (d_quantity defectData) currentQty
               then Inl (InsufficientStock (d_quantity defectData) currentQty)
               else (case tx_update (d_productId defectData)
                             (quantityPath (d_color defectData) (d_size defectData))
                             (js_sub currentQty (d_quantity defectData)) tx1 of
                       Inl e \<Rightarrow> Inl e
                     | Inr tx2 \<Rightarrow> Inr (tx_set (SetDefect (d_id defectData) defectData) tx2))))"

text \<open>The result pairs what the caller is told (\<^verbatim>\<open>{success: true}\<close> or the failure) with
  the store afterwards. The update function of addDefectiveItem assigns no variable of
  the enclosing function.\<close>

definition addDefectiveItem ::
  "nat \<Rightarrow> bool \<Rightarrow> 'n defect \<Rightarrow> 'n db \<Rightarrow> (failure + unit) \<times> 'n db" where
  "addDefectiveItem retries storeAccepts defectData d =
     (case runTransaction retries storeAccepts d
             (\<lambda>vars tx. case addDefectiveItem_body d defectData tx of
                           Inl e \<Rightarrow> Inl e
                         | Inr tx' \<Rightarrow> Inr (vars, tx')) () of
        Inl e \<Rightarrow> (Inl e, d)
      | Inr (vars, d') \<Rightarrow> (Inr (), d'))"

section \<open>saveNewInvoice\<close>

text \<open>An invoice line item: \<^verbatim>\<open>quantities\<close> is iterated with \<^verbatim>\<open>Object.entries\<close>, so it is kept
  as the list of its entries in iteration order; \<^verbatim>\<open>productData\<close> may be absent.\<close>

record 'n invoiceItem =
  isNew :: bool
  productId :: docId
  productData :: "'n product option"
  quantities :: "(string \<times> (string \<times> int) list) list"

record 'n invoiceData =
  supplierId :: string
  date :: string
  shippingCost :: 'n
  items :: "'n invoiceItem list"

text \<open>The arithmetic of the numbers that prices and costs are: the number 0, the sum
  \<^verbatim>\<open>a + b\<close> and the product \<^verbatim>\<open>quantity * price\<close>, as the JavaScript engine computes them.\<close>

record 'n numberOps =
  js_zero :: 'n
  js_plus :: "'n \<Rightarrow> 'n \<Rightarrow> 'n"
  js_times :: "int \<Rightarrow> 'n \<Rightarrow> 'n"

text \<open>What the transaction body works on: the transaction itself and the two variables
  of the enclosing function it assigns, \<^verbatim>\<open>totalInvoiceCost\<close> and \<^verbatim>\<open>newShipment.items\<close>.\<close>

record 'n invoiceAcc =
  trans :: "'n transaction"
  totalInvoiceCost :: 'n
  newItems :: "'n shipmentLine list"

fun sizesLoop ::
  "'n numberOps \<Rightarrow> docId \<Rightarrow> 'n product \<Rightarrow> string \<Rightarrow> (string \<times> int) list \<Rightarrow> 'n invoiceAcc
     \<Rightarrow> failure + 'n invoiceAcc" where
  "sizesLoop ops pid pd color [] acc = Inr acc"
| "sizesLoop ops pid pd color ((sz, quantity) # rest) acc =
     (if quantity > 0 then
        (case tx_update pid (quantityPath color sz)
                (js_add (currentQtyOf pd color sz) quantity) (trans acc) of
           Inl e \<Rightarrow> Inl e
         | Inr tx' \<Rightarrow>
             sizesLoop ops pid pd color rest
               (acc\<lparr>trans := tx',
                    totalInvoiceCost :=
                      js_plus ops (totalInvoiceCost acc) (js_times ops quantity (purchasePrice pd)),
                    newItems := newItems acc @
                      [\<lparr>l_productId = pid, l_productName = name pd, l_color = color,
                        l_size = sz, l_quantity = quantity, l_purchasePrice = purchasePrice pd\<rparr>]\<rparr>))
      else sizesLoop ops pid pd color rest acc)"

fun colorsLoop ::
  "'n numberOps \<Rightarrow> docId \<Rightarrow> 'n product \<Rightarrow> (string \<times> (string \<times> int) list) list \<Rightarrow> 'n invoiceAcc
     \<Rightarrow> failure + 'n invoiceAcc" where
  "colorsLoop ops pid pd [] acc = Inr acc"
| "colorsLoop ops pid pd ((color, sizes) # rest) acc =
     (case sizesLoop ops pid pd color sizes acc of
        Inl e \<Rightarrow> Inl e
      | Inr acc' \<Rightarrow> colorsLoop ops pid pd rest acc')"

definition itemStep ::
  "'n numberOps \<Rightarrow> 'n db \<Rightarrow> 'n invoiceItem \<Rightarrow> 'n invoiceAcc \<Rightarrow> failure + 'n invoiceAcc" where
  "itemStep ops d item acc =
     (case (if isNew item
            then (case productData item of
                    None \<Rightarrow> Inl TypeError
                  | Some npd \<Rightarrow> Inr (tx_set (SetProduct (p_id npd) npd) (trans acc)))
            else Inr (trans acc)) of
        Inl e \<Rightarrow> Inl e
      | Inr tx1 \<Rightarrow>
          (case tx_get d (productId item) tx1 of
             Inl e \<Rightarrow> Inl e
           | Inr (productDoc, tx2) \<Rightarrow>
               (case (case productDoc of Some p \<Rightarrow> Some p | None \<Rightarrow> productData item) of
                  None \<Rightarrow> Inl (ProductDataNotFound (productId item))
                | Some pd \<Rightarrow>
                    colorsLoop ops (productId item) pd (quantities item) (acc\<lparr>trans := tx2\<rparr>))))"

fun itemsLoop ::
  "'n numberOps \<Rightarrow> 'n db \<Rightarrow> 'n invoiceItem list \<Rightarrow> 'n invoiceAcc \<Rightarrow> failure + 'n invoiceAcc" where
  "itemsLoop ops d [] acc = Inr acc"
| "itemsLoop ops d (item # rest) acc =
     (case itemStep ops d item acc of
        Inl e \<Rightarrow> Inl e
      | Inr acc' \<Rightarrow> itemsLoop ops d rest acc')"

text \<open>\<^verbatim>\<open>`SH${date.replace(/-/g, '')}-${Date.now().toString().slice(-5)}`\<close>; the clock's reading
  \<^verbatim>\<open>Date.now().toString()\<close> is the parameter \<open>now\<close>.\<close>

definition shipmentIdOf :: "string \<Rightarrow> string \<Rightarrow> docId" where
  "shipmentIdOf dt now =
     ''SH'' @ filter (\<lambda>c. c \<noteq> CHR ''-'') dt @ ''-'' @ drop (length now - 5) now"

text \<open>The update function of saveNewInvoice. \<^verbatim>\<open>totalInvoiceCost\<close> and \<^verbatim>\<open>newShipment\<close> are
  declared before \<^verbatim>\<open>runTransaction\<close> is called and are not reset inside the function: it
  goes on from the values \<open>vars\<close> they have when it starts, and leaves them as the loop
  left them.\<close>

definition saveNewInvoice_body ::
  "'n numberOps \<Rightarrow> 'n db \<Rightarrow> string \<Rightarrow> 'n invoiceData \<Rightarrow> 'n \<times> 'n shipmentLine list \<Rightarrow> 'n transaction
     \<Rightarrow> failure + ('n \<times> 'n shipmentLine list) \<times> 'n transaction" where
  "saveNewInvoice_body ops d now invoice vars t =
     (case itemsLoop ops d (items invoice)
             \<lparr>trans = t, totalInvoiceCost = fst vars, newItems = snd vars\<rparr> of
        Inl e \<Rightarrow> Inl e
      | Inr acc \<Rightarrow>
          Inr ((totalInvoiceCost acc, newItems acc),
               tx_set
                 (SetShipment (shipmentIdOf (date invoice) now)
                    \<lparr>s_id = shipmentIdOf (date invoice) now, s_supplierId = supplierId invoice,
                      s_date = date invoice, s_shippingCost = shippingCost invoice,
                      s_items = newItems acc, s_totalCost = totalInvoiceCost acc\<rparr>)
                 (trans acc)))"

text \<open>\<^verbatim>\<open>let totalInvoiceCost = 0\<close> and \<^verbatim>\<open>items: []\<close> are the values the variables start from.\<close>

definition saveNewInvoice ::
  "'n numberOps \<Rightarrow> nat \<Rightarrow> bool \<Rightarrow> string \<Rightarrow> 'n invoiceData \<Rightarrow> 'n db \<Rightarrow> (failure + docId) \<times> 'n db" where
  "saveNewInvoice ops retries storeAccepts now invoice d =
     (case runTransaction retries storeAccepts d (saveNewInvoice_body ops d now invoice)
             (js_zero ops, []) of
        Inl e \<Rightarrow> (Inl e, d)
      | Inr (vars, d') \<Rightarrow> (Inr (shipmentIdOf (date invoice) now), d'))"

section \<open>The configuration document and merging writes\<close>

text \<open>
  \<^verbatim>\<open>app_config/main\<close> is written with \<^verbatim>\<open>{ merge: true }\<close>. Its values are kept as
  trees: Firestore merges a non-empty map field by field, and replaces a field by any other
  value given for it (a text, a number, an array, an empty map).
\<close>

datatype cval =
    CText string
  | CNumber rat
  | CList "cval list"
  | CMap "string \<Rightarrow> cval option"

primrec mergeVal :: "cval \<Rightarrow> cval option \<Rightarrow> cval" where
  "mergeVal (CText s) old = CText s"
| "mergeVal (CNumber n) old = CNumber n"
| "mergeVal (CList xs) old = CList xs"
| "mergeVal (CMap m) old =
     (if m = Map.empty then CMap m
      else CMap (\<lambda>k. case map_option mergeVal (m k) of
                         None \<Rightarrow> (case old of Some (CMap om) \<Rightarrow> om k | _ \<Rightarrow> None)
                       | Some f \<Rightarrow> Some (f (case old of Some (CMap om) \<Rightarrow> om k | _ \<Rightarrow> None))))"

definition setMerge :: "(string \<rightharpoonup> cval) \<Rightarrow> (string \<rightharpoonup> cval) \<Rightarrow> (string \<rightharpoonup> cval)" where
  "setMerge data old = (\<lambda>k. case data k of None \<Rightarrow> old k | Some v \<Rightarrow> Some (mergeVal v (old k)))"

section \<open>saveData and saveShift\<close>

text \<open>
  \<^verbatim>\<open>saveData\<close> and \<^verbatim>\<open>saveShift\<close> write whole documents and look at nothing in them but
  \<^verbatim>\<open>id\<close> (and a shift's \<^verbatim>\<open>endedAt\<close>), so here a document is its identifier, which may
  be missing, and a body of any type. The in-memory state (\<^verbatim>\<open>state.js\<close>, not part of the
  sources) is a parameter: its collections may be undefined, its other fields are values.
\<close>

record 'b item =
  item_id :: "docId option"
  item_data :: 'b

record 'b appState =
  st_products :: "'b item list option"
  st_sales :: "'b item list option"
  st_customers :: "'b item list option"
  st_bookings :: "'b item list option"
  st_defects :: "'b item list option"
  st_suppliers :: "'b item list option"
  st_shipments :: "'b item list option"
  st_shifts :: "'b item list option"
  st_users :: "'b item list option"
  st_expenses_daily :: "'b item list option"
  st_categories :: "string list"
  st_salaries :: cval
  st_salariesPaidStatus :: cval
  st_expenses_rent :: cval
  st_lastShiftReportTime :: cval

record 'b store =
  collections :: "string \<Rightarrow> docId \<rightharpoonup> 'b item"
  config :: "string \<rightharpoonup> cval"

text \<open>A write batch is the list of its writes; the deletions \<^verbatim>\<open>saveData\<close> adds for one
  collection (one \<^verbatim>\<open>batch.delete\<close> for each identifier left in \<^verbatim>\<open>existingIds\<close>) are kept
  as one entry.\<close>

datatype 'b batchWrite =
    BSetMerge "string \<rightharpoonup> cval"
  | BSet string docId "'b item"
  | BDelete string "docId set"

fun applyWrite :: "'b batchWrite \<Rightarrow> 'b store \<Rightarrow> 'b store" where
  "applyWrite (BSetMerge data) s = s\<lparr>config := setMerge data (config s)\<rparr>"
| "applyWrite (BSet c i x) s = s\<lparr>collections := (collections s)(c := (collections s c)(i \<mapsto> x))\<rparr>"
| "applyWrite (BDelete c ids) s =
     s\<lparr>collections := (collections s)(c := (\<lambda>i. if i \<in> ids then None else collections s c i))\<rparr>"

definition commitBatch :: "'b batchWrite list \<Rightarrow> 'b store \<Rightarrow> 'b store" where
  "commitBatch batch s = foldl (\<lambda>s' w. applyWrite w s') s batch"

text \<open>\<^verbatim>\<open>collData.forEach(item => ...)\<close>, on the batch and the set \<^verbatim>\<open>existingIds\<close>.
  \<^verbatim>\<open>if (item.id)\<close>: a missing identifier and the empty string are falsy, and such an item
  is only logged.\<close>

fun forEachItem ::
  "string \<Rightarrow> 'b item list \<Rightarrow> 'b batchWrite list \<times> docId set \<Rightarrow> 'b batchWrite list \<times> docId set" where
  "forEachItem collName [] acc = acc"
| "forEachItem collName (item # rest) (batch, existingIds) =
     (case item_id item of
        None \<Rightarrow> forEachItem collName rest (batch, existingIds)
      | Some i \<Rightarrow>
          if i \<noteq> []
          then forEachItem collName rest (batch @ [BSet collName i item], existingIds - {i})
          else forEachItem collName rest (batch, existingIds))"

definition syncCollection ::
  "'b store \<Rightarrow> string \<times> 'b item list option \<Rightarrow> 'b batchWrite list \<Rightarrow> 'b batchWrite list" where
  "syncCollection s entry batch =
     (case snd entry of
        None \<Rightarrow> batch
      | Some collData \<Rightarrow>
          (case forEachItem (fst entry) collData (batch, dom (collections s (fst entry))) of
             (batch', existingIds) \<Rightarrow> batch' @ [BDelete (fst entry) existingIds]))"

definition collectionsOf :: "'b appState \<Rightarrow> (string \<times> 'b item list option) list" where
  "collectionsOf st =
     [(''products'', st_products st), (''sales'', st_sales st), (''customers'', st_customers st),
      (''bookings'', st_bookings st), (''defects'', st_defects st), (''suppliers'', st_suppliers st),
      (''shipments'', st_shipments st), (''shifts'', st_shifts st), (''users'', st_users st),
      (''daily_expenses'', st_expenses_daily st)]"

definition savedCategories :: "'b appState \<Rightarrow> string list" where
  "savedCategories st = filter (\<lambda>c. c \<noteq> ''All'') (st_categories st)"

definition configData :: "'b appState \<Rightarrow> (string \<rightharpoonup> cval)" where
  "configData st =
     [''categories'' \<mapsto> CList (map CText (savedCategories st)),
      ''salaries'' \<mapsto> st_salaries st,
      ''salariesPaidStatus'' \<mapsto> st_salariesPaidStatus st,
      ''expenses'' \<mapsto> CMap [''rent'' \<mapsto> st_expenses_rent st],
      ''lastShiftReportTime'' \<mapsto> st_lastShiftReportTime st]"

definition saveData_batch :: "'b appState \<Rightarrow> 'b store \<Rightarrow> 'b batchWrite list" where
  "saveData_batch st s =
     foldl (\<lambda>batch entry. syncCollection s entry batch) [BSetMerge (configData st)] (collectionsOf st)"

text \<open>\<^verbatim>\<open>saveData\<close> returns nothing; the result is the store afterwards. When the store
  rejects the commit (or a read before it) the error is caught and nothing is written.\<close>

definition saveData :: "bool \<Rightarrow> 'b appState \<Rightarrow> 'b store \<Rightarrow> 'b store" where
  "saveData storeAccepts st s =
     (if storeAccepts then commitBatch (saveData_batch st s) s else s)"

record shiftBody =
  endedAt :: cval
  shiftRest :: cval

text \<open>Two separate \<^verbatim>\<open>setDoc\<close> calls, awaited one after the other; each may be rejected.
  \<^verbatim>\<open>doc(db, "shifts", shiftData.id)\<close> throws on a missing or empty identifier.\<close>

definition saveShift ::
  "bool \<Rightarrow> bool \<Rightarrow> shiftBody item \<Rightarrow> shiftBody store \<Rightarrow> (failure + unit) \<times> shiftBody store" where
  "saveShift firstAccepted secondAccepted shiftData s =
     (case item_id shiftData of
        None \<Rightarrow> (Inl InvalidDocumentPath, s)
      | Some i \<Rightarrow>
          if i = [] then (Inl InvalidDocumentPath, s)
          else if \<not> firstAccepted then (Inl StoreRejected, s)
          else
            let s1 = s\<lparr>collections :=
                        (collections s)(''shifts'' := (collections s ''shifts'')(i \<mapsto> shiftData))\<rparr>
            in if \<not> secondAccepted then (Inl StoreRejected, s1)
               else (Inr (),
                     s1\<lparr>config := setMerge [''lastShiftReportTime'' \<mapsto> endedAt (item_data shiftData)]
                                            (config s1)\<rparr>))"

section \<open>Notions the properties are stated with\<close>

text \<open>
  Reading a nested field by its keys, as the chain of \<^verbatim>\<open>?.\<close> accesses does.
\<close>

definition getPath :: "string list \<Rightarrow> fval option \<Rightarrow> fval option" where
  "getPath ks t = foldl getProp t ks"

text \<open>
  A stored quantity is not negative when it is not a negative number. A product's stock
  is non-negative when every variant, read the way the program reads it, is so; a store's
  when every product's is.
\<close>

fun notNegative :: "fval \<Rightarrow> bool" where
  "notNegative (Num n) = (0 \<le> n)"
| "notNegative _ = True"

definition productNonNegative :: "'n product \<Rightarrow> bool" where
  "productNonNegative p = (\<forall>c s. notNegative (currentQtyOf p c s))"

definition stockNonNegative :: "'n db \<Rightarrow> bool" where
  "stockNonNegative d = (\<forall>pid p. products d pid = Some p \<longrightarrow> productNonNegative p)"

definition payloadNonNegative :: "'n invoiceItem \<Rightarrow> bool" where
  "payloadNonNegative it = (case productData it of None \<Rightarrow> True | Some pd \<Rightarrow> productNonNegative pd)"

text \<open>
  The writes of a transaction that cannot make a quantity negative.
\<close>

fun isObj :: "fval \<Rightarrow> bool" where
  "isObj (Obj m) = True"
| "isObj _ = False"

fun safeMutation :: "'n mutation \<Rightarrow> bool" where
  "safeMutation (SetProduct i p) = productNonNegative p"
| "safeMutation (UpdateProduct i segs v) = (notNegative v \<and> \<not> isObj v)"
| "safeMutation _ = True"

definition safeTx :: "'n transaction \<Rightarrow> bool" where
  "safeTx t = list_all safeMutation (mutations t)"

definition harmless :: "fval option \<Rightarrow> bool" where
  "harmless x = notNegative (orZero x)"

text \<open>
  A name that is one valid segment of a field path: not empty, without a dot and without
  a character Firestore reserves.
\<close>

definition plainName :: "string \<Rightarrow> bool" where
  "plainName s = (s \<noteq> [] \<and> \<not> list_ex (\<lambda>c. c = CHR ''.'' \<or> reservedChar c) s)"

text \<open>
  The sum of the costs of shipment lines, taken line by line from the first with the
  arithmetic given: what \<^verbatim>\<open>totalInvoiceCost += quantity * purchasePrice\<close> computes over them.
\<close>

definition addLine :: "'n numberOps \<Rightarrow> 'n \<Rightarrow> 'n shipmentLine \<Rightarrow> 'n" where
  "addLine ops t l = js_plus ops t (js_times ops (l_quantity l) (l_purchasePrice l))"

definition sumLines :: "'n numberOps \<Rightarrow> 'n shipmentLine list \<Rightarrow> 'n" where
  "sumLines ops ls = foldl (addLine ops) (js_zero ops) ls"

text \<open>
  The lines of an invoice: for every item in order, one line for each (color, size) entry
  with a positive quantity, in iteration order, carrying the name and the purchase price
  of the item's product data (the product document, or the payload when there is none).
\<close>

definition positiveEntries :: "(string \<times> (string \<times> int) list) list \<Rightarrow> (string \<times> string \<times> int) list" where
  "positiveEntries qs =
     concat (map (\<lambda>(color, sizes). map (\<lambda>(sz, q). (color, sz, q)) (filter (\<lambda>(sz, q). q > 0) sizes)) qs)"

definition productDataFor :: "'n db \<Rightarrow> 'n invoiceItem \<Rightarrow> 'n product option" where
  "productDataFor d it =
     (case products d (productId it) of Some p \<Rightarrow> Some p | None \<Rightarrow> productData it)"

definition lineOf :: "docId \<Rightarrow> 'n product \<Rightarrow> string \<times> string \<times> int \<Rightarrow> 'n shipmentLine" where
  "lineOf pid pd e =
     \<lparr>l_productId = pid, l_productName = name pd, l_color = fst e, l_size = fst (snd e),
      l_quantity = snd (snd e), l_purchasePrice = purchasePrice pd\<rparr>"

definition itemLines :: "'n db \<Rightarrow> 'n invoiceItem \<Rightarrow> 'n shipmentLine list" where
  "itemLines d it =
     (case productDataFor d it of
        None \<Rightarrow> []
      | Some pd \<Rightarrow> map (lineOf (productId it) pd) (positiveEntries (quantities it)))"

definition invoiceLines :: "'n db \<Rightarrow> 'n invoiceItem list \<Rightarrow> 'n shipmentLine list" where
  "invoiceLines d its = concat (map (itemLines d) its)"

text \<open>
  The variables of the enclosing function after a number of attempts that ran the update
  function to its end.
\<close>

fun afterRuns ::
  "('o \<Rightarrow> 'n transaction \<Rightarrow> failure + 'o \<times> 'n transaction) \<Rightarrow> nat \<Rightarrow> 'o \<Rightarrow> 'o option" where
  "afterRuns body 0 vars = Some vars"
| "afterRuns body (Suc k) vars =
     (case body vars newTransaction of
        Inl e \<Rightarrow> None
      | Inr (vars', tx) \<Rightarrow> afterRuns body k vars')"

text \<open>
  States of a transaction: one that has recorded an error and so cannot commit, and one in
  which the next update of the product would record it.
\<close>

definition doomed :: "'n transaction \<Rightarrow> bool" where
  "doomed t = (lastTransactionError t \<noteq> None)"

definition txInv :: "'n transaction \<Rightarrow> bool" where
  "txInv t = (doomed t \<or> mutations t \<noteq> [] \<or> writtenDocs t = {})"

definition armed :: "docId \<Rightarrow> 'n transaction \<Rightarrow> bool" where
  "armed pid t = (readVersions t (ProductRef pid) = Some False \<and> ProductRef pid \<notin> writtenDocs t)"

text \<open>
  The incoming records of a collection that carry an identifier: their identifiers, the
  documents they leave (a later record replaces an earlier one with the same identifier),
  and the writes they add to the batch.
\<close>

fun identifiers :: "'b item list \<Rightarrow> docId list" where
  "identifiers [] = []"
| "identifiers (x # xs) =
     (case item_id x of
        None \<Rightarrow> identifiers xs
      | Some i \<Rightarrow> if i \<noteq> [] then i # identifiers xs else identifiers xs)"

fun upsertAll :: "'b item list \<Rightarrow> (docId \<rightharpoonup> 'b item) \<Rightarrow> (docId \<rightharpoonup> 'b item)" where
  "upsertAll [] m = m"
| "upsertAll (x # xs) m =
     (case item_id x of
        None \<Rightarrow> upsertAll xs m
      | Some i \<Rightarrow> if i \<noteq> [] then upsertAll xs (m(i \<mapsto> x)) else upsertAll xs m)"

fun setWrites :: "string \<Rightarrow> 'b item list \<Rightarrow> 'b batchWrite list" where
  "setWrites c [] = []"
| "setWrites c (x # xs) =
     (case item_id x of
        None \<Rightarrow> setWrites c xs
      | Some i \<Rightarrow> if i \<noteq> [] then BSet c i x # setWrites c xs else setWrites c xs)"

definition identified :: "'b batchWrite \<Rightarrow> bool" where
  "identified w = (case w of BSet c i x \<Rightarrow> item_id x = Some i \<and> i \<noteq> [] | _ \<Rightarrow> True)"

text \<open>
  Whether the categories of a configuration document list the sentinel.
\<close>

definition listsAll :: "(string \<rightharpoonup> cval) \<Rightarrow> bool" where
  "listsAll cfg = (case cfg ''categories'' of Some (CList xs) \<Rightarrow> CText ''All'' \<in> set xs | _ \<Rightarrow> False)"

section \<open>Example data\<close>

text \<open>
  Exact arithmetic on rationals, for the examples.
\<close>

definition exactOps :: "rat numberOps" where
  "exactOps = \<lparr>js_zero = 0, js_plus = (\<lambda>a b. a + b), js_times = (\<lambda>q p. of_int q * p)\<rparr>"

text \<open>
  A product with one variant, the stores that hold it, and requests against it, after the
  scenarios of the spec.
\<close>

definition variantColors :: "string \<Rightarrow> string \<Rightarrow> int \<Rightarrow> fval option" where
  "variantColors c s n = Some (setPath [c, ''sizes'', s, ''quantity''] (Num n) None)"

definition exampleProduct :: "int \<Rightarrow> rat product" where
  "exampleProduct n =
     \<lparr>p_id = ''p1'', name = ''Shoe'', purchasePrice = 20, colors = variantColors ''red'' ''M'' n\<rparr>"

definition exampleDb :: "int \<Rightarrow> rat db" where
  "exampleDb n =
     \<lparr>products = [''p1'' \<mapsto> exampleProduct n], defects = Map.empty, shipments = Map.empty\<rparr>"

definition exampleDefect :: "int \<Rightarrow> rat defect" where
  "exampleDefect q =
     \<lparr>d_id = ''d1'', d_productId = ''p1'', d_color = ''red'', d_size = ''M'', d_quantity = q,
      d_reason = ''torn'', d_purchasePrice = 20, d_supplierId = ''s1'',
      d_shipmentDate = ''2024-05-01''\<rparr>"

definition variantProduct :: "string \<Rightarrow> string \<Rightarrow> int \<Rightarrow> rat product" where
  "variantProduct c s n =
     \<lparr>p_id = ''p1'', name = ''Shoe'', purchasePrice = 20, colors = variantColors c s n\<rparr>"

definition variantDefect :: "string \<Rightarrow> string \<Rightarrow> int \<Rightarrow> rat defect" where
  "variantDefect c s q =
     \<lparr>d_id = ''d1'', d_productId = ''p1'', d_color = c, d_size = s, d_quantity = q,
      d_reason = ''torn'', d_purchasePrice = 20, d_supplierId = ''s1'',
      d_shipmentDate = ''2024-05-01''\<rparr>"

definition singleDb :: "rat product \<Rightarrow> rat db" where
  "singleDb p = \<lparr>products = [p_id p \<mapsto> p], defects = Map.empty, shipments = Map.empty\<rparr>"

definition exampleItem1 :: "rat invoiceItem" where
  "exampleItem1 =
     \<lparr>isNew = False, productId = ''p1'', productData = None,
      quantities = [(''red'', [(''M'', 5), (''L'', 0)])]\<rparr>"

definition missingItem :: "rat invoiceItem" where
  "missingItem =
     \<lparr>isNew = False, productId = ''p3'', productData = None,
      quantities = [(''red'', [(''M'', 10)])]\<rparr>"

definition newMissingItem :: "rat invoiceItem" where
  "newMissingItem =
     \<lparr>isNew = True, productId = ''p3'', productData = None,
      quantities = [(''red'', [(''M'', 10)])]\<rparr>"

definition payloadProduct :: "rat product" where
  "payloadProduct = \<lparr>p_id = ''p2'', name = ''Ball'', purchasePrice = 50, colors = None\<rparr>"

definition newItem :: "rat invoiceItem" where
  "newItem =
     \<lparr>isNew = True, productId = ''p2'', productData = Some payloadProduct,
      quantities = [(''red'', [(''M'', 10)])]\<rparr>"

definition payloadItem :: "rat invoiceItem" where
  "payloadItem =
     \<lparr>isNew = False, productId = ''p2'', productData = Some payloadProduct,
      quantities = [(''red'', [(''M'', 10)])]\<rparr>"

definition exampleInvoice :: "rat invoiceItem list \<Rightarrow> rat invoiceData" where
  "exampleInvoice its = \<lparr>supplierId = ''s1'', date = ''2024-05-01'', shippingCost = 0, items = its\<rparr>"

definition exampleItem :: "string \<Rightarrow> string item" where
  "exampleItem i = \<lparr>item_id = Some i, item_data = ''record '' @ i\<rparr>"

definition exampleState :: "string appState" where
  "exampleState =
     \<lparr>st_products = Some [exampleItem ''1'', exampleItem ''2'', \<lparr>item_id = None, item_data = ''no id''\<rparr>],
      st_sales = None, st_customers = None, st_bookings = None, st_defects = None,
      st_suppliers = None, st_shipments = None, st_shifts = None, st_users = None,
      st_expenses_daily = None,
      st_categories = [''All'', ''Shoes''],
      st_salaries = CMap Map.empty, st_salariesPaidStatus = CMap Map.empty,
      st_expenses_rent = CNumber 0, st_lastShiftReportTime = CText ''2024-05-01T10:00''\<rparr>"

definition exampleStore :: "string store" where
  "exampleStore =
     \<lparr>collections = (\<lambda>c. Map.empty)
        (''products'' := [''1'' \<mapsto> exampleItem ''1'', ''2'' \<mapsto> exampleItem ''2'', ''3'' \<mapsto> exampleItem ''3'']),
      config = Map.empty\<rparr>"

definition exampleShift :: "shiftBody item" where
  "exampleShift =
     \<lparr>item_id = Some ''shift1'',
      item_data = \<lparr>endedAt = CText ''2024-05-01T18:00'', shiftRest = CMap Map.empty\<rparr>\<rparr>"

definition emptyShiftStore :: "shiftBody store" where
  "emptyShiftStore = \<lparr>collections = (\<lambda>c. Map.empty), config = Map.empty\<rparr>"

section \<open>Facts about the model\<close>

lemma runTransaction_unfold:
  "runTransaction retries ok d body vars =
     (case body vars newTransaction of
        Inl e \<Rightarrow> Inl e
      | Inr (vars', tx) \<Rightarrow>
          if lastTransactionError tx = None \<and> 0 < retries
          then attempt 4 (retries - 1) ok d body vars'
          else (case commit ok tx d of Inl e \<Rightarrow> Inl e | Inr d' \<Rightarrow> Inr (vars', d')))"
proof -
  have "(5::nat) = Suc 4" by simp
  then show ?thesis by (simp only: runTransaction_def attempt.simps)
qed

lemmas tx_defs = tx_get_def tx_update_def tx_set_def newTransaction_def commit_def runTransaction_unfold

lemmas defect_defs = addDefectiveItem_def addDefectiveItem_body_def quantityPath_def
  fieldPathFromDotSeparatedString_def reservedChar_def mutationRef_def updateFields_def
  currentQtyOf_def

lemmas invoice_defs = saveNewInvoice_def saveNewInvoice_body_def itemStep_def shipmentIdOf_def
  quantityPath_def fieldPathFromDotSeparatedString_def reservedChar_def mutationRef_def
  updateFields_def currentQtyOf_def

lemma currentQtyOf_getPath:
  "currentQtyOf p c s = orZero (getPath [c, ''sizes'', s, ''quantity''] (colors p))"
  by (simp add: currentQtyOf_def getPath_def)

lemma getPath_None [simp]: "getPath r None = None"
  by (induction r) (simp_all add: getPath_def)

lemma getPath_Cons: "getPath (k # r) t = getPath r (getProp t k)"
  by (simp add: getPath_def)

lemma getPath_Nil [simp]: "getPath [] t = t"
  by (simp add: getPath_def)

lemma getPath_leaf: "\<not> isObj v \<Longrightarrow> r \<noteq> [] \<Longrightarrow> getPath r (Some v) = None"
  by (cases r; cases v) (simp_all add: getPath_Cons)

lemma getPath_setPath_same: "getPath p (Some (setPath p v old)) = Some v"
  by (induction p arbitrary: old) (auto simp: getPath_Cons split: option.splits fval.splits)

lemma currentQtyOf_updated:
  "currentQtyOf (updateFields [''colors'', c, ''sizes'', s, ''quantity''] v p) c s = orZero (Some v)"
  using getPath_setPath_same [of "[c, ''sizes'', s, ''quantity'']" v "colors p"]
  by (simp add: currentQtyOf_getPath updateFields_def)

lemma splitDots_ne: "splitDots s \<noteq> []"
  by (induction s) (auto split: list.splits)

lemma splitDots_plain: "CHR ''.'' \<notin> set s \<Longrightarrow> splitDots s = [s]"
  by (induction s) auto

lemma splitDots_append: "splitDots (xs @ CHR ''.'' # ys) = splitDots xs @ splitDots ys"
  by (induction xs) (auto simp: splitDots_ne split: list.splits)

lemma splitDots_quantityPath:
  "splitDots (quantityPath c s) = [''colors''] @ splitDots c @ [''sizes''] @ splitDots s @ [''quantity'']"
proof -
  have "quantityPath c s = ''colors'' @ CHR ''.'' # (c @ CHR ''.'' # (''sizes'' @ CHR ''.'' # (s @ CHR ''.'' # ''quantity'' )))"
    by (simp add: quantityPath_def)
  then show ?thesis
    by (simp only: splitDots_append) (simp add: splitDots_plain)
qed

lemma fieldPath_plain:
  assumes "plainName c" and "plainName s"
  shows "fieldPathFromDotSeparatedString (quantityPath c s) = Inr [''colors'', c, ''sizes'', s, ''quantity'']"
proof -
  have "\<not> list_ex reservedChar (quantityPath c s)"
    using assms by (auto simp: plainName_def quantityPath_def list_ex_iff reservedChar_def)
  moreover have "splitDots c = [c]" "splitDots s = [s]"
    using assms by (auto simp: plainName_def list_ex_iff intro!: splitDots_plain)
  then have "splitDots (quantityPath c s) = [''colors'', c, ''sizes'', s, ''quantity'']"
    by (simp add: splitDots_quantityPath)
  ultimately show ?thesis
    using assms by (simp add: fieldPathFromDotSeparatedString_def plainName_def)
qed

lemma commit_success:
  "commit ok t d = Inr d' \<Longrightarrow> lastTransactionError t = None \<and> applyMutations (mutations t) d = Some d'"
  by (auto simp: commit_def split: option.splits if_splits)

lemma applyMutations_append:
  "applyMutations (ms @ ms') d = (case applyMutations ms d of None \<Rightarrow> None | Some d1 \<Rightarrow> applyMutations ms' d1)"
  by (induction ms arbitrary: d) (auto split: option.splits)

lemma applyMutations_last_shipment:
  "applyMutations (ms @ [SetShipment i x]) d = Some d' \<Longrightarrow> shipments d' i = Some x"
  by (auto simp: applyMutations_append split: option.splits)

lemma tx_get_doc: "tx_get d pid t = Inr (doc, t') \<Longrightarrow> doc = products d pid"
  by (auto simp: tx_get_def split: if_splits)

lemma tx_get_props:
  "tx_get d pid t = Inr (doc, t') \<Longrightarrow>
     mutations t = [] \<and> doc = products d pid \<and> doomed t' = doomed t \<and> txInv t' = txInv t
     \<and> writtenDocs t' = writtenDocs t \<and> readVersions t' (ProductRef pid) = Some (products d pid \<noteq> None)"
  by (auto simp: tx_get_def doomed_def txInv_def split: if_splits)

lemma itemStep_new:
  "isNew it \<Longrightarrow>
     itemStep ops d it acc = Inl (case productData it of None \<Rightarrow> TypeError | Some npd \<Rightarrow> ReadAfterWrite)"
  by (simp add: itemStep_def tx_get_def tx_set_def split: option.splits)

lemma itemStep_old:
  "\<not> isNew it \<Longrightarrow>
     itemStep ops d it acc =
       (case tx_get d (productId it) (trans acc) of
          Inl e \<Rightarrow> Inl e
        | Inr (productDoc, tx2) \<Rightarrow>
            (case (case productDoc of Some p \<Rightarrow> Some p | None \<Rightarrow> productData it) of
               None \<Rightarrow> Inl (ProductDataNotFound (productId it))
             | Some pd \<Rightarrow> colorsLoop ops (productId it) pd (quantities it) (acc\<lparr>trans := tx2\<rparr>)))"
  by (simp add: itemStep_def)

lemma itemsLoop_append:
  "itemsLoop ops d (pre @ its) acc =
     (case itemsLoop ops d pre acc of Inl e \<Rightarrow> Inl e | Inr acc1 \<Rightarrow> itemsLoop ops d its acc1)"
  by (induction pre arbitrary: acc) (auto split: sum.splits)

lemma example_qty: "currentQtyOf (exampleProduct n) ''red'' ''M'' = Num n"
  by (simp add: currentQtyOf_def exampleProduct_def variantColors_def)

lemma example_qty_other:
  "currentQtyOf (exampleProduct n) c s = (if c = ''red'' \<and> s = ''M'' then Num n else Num 0)"
  by (simp add: currentQtyOf_def exampleProduct_def variantColors_def)

section \<open>addDefectiveItem\<close>

text \<open>
  C3. When the requested quantity exceeds the variant's current quantity, addDefectiveItem
  fails with the insufficient-stock error and the store it returns is the store it was
  given: the variant quantity is unchanged and no defect record has been created.
\<close>

theorem addDefectiveItem_insufficient_stock:
  assumes "products d (d_productId x) = Some p"
      and "currentQtyOf p (d_color x) (d_size x) = Num n"
      and "d_quantity x > n"
  shows "addDefectiveItem retries storeAccepts x d = (Inl (InsufficientStock (d_quantity x) (Num n)), d)"
  using assms
  by (simp add: addDefectiveItem_def addDefectiveItem_body_def tx_defs)

theorem addDefectiveItem_insufficient_stock_witness:
  "addDefectiveItem 0 True (exampleDefect 3) (exampleDb 2)
     = (Inl (InsufficientStock 3 (Num 2)), exampleDb 2)"
proof -
  have 1: "products (exampleDb 2) (d_productId (exampleDefect 3)) = Some (exampleProduct 2)"
    by (simp add: exampleDb_def exampleDefect_def)
  have 2: "currentQtyOf (exampleProduct 2) (d_color (exampleDefect 3)) (d_size (exampleDefect 3)) = Num 2"
    by (simp add: exampleDefect_def example_qty)
  have 3: "d_quantity (exampleDefect 3) > 2"
    by (simp add: exampleDefect_def)
  show ?thesis
    using addDefectiveItem_insufficient_stock [OF 1 2 3, of 0 True] by (simp add: exampleDefect_def)
qed

text \<open>
  Every failure of addDefectiveItem leaves the store as it was.
\<close>

lemma addDefectiveItem_failure_writes_nothing:
  "addDefectiveItem retries ok x d = (Inl e, d') \<Longrightarrow> d' = d"
  by (auto simp: addDefectiveItem_def split: sum.splits)

text \<open>
  With a color and a size name that are each one valid field-path segment, a request
  within the stock succeeds when the store accepts the commit, after fewer than five
  refusals: the variant's quantity becomes the difference and the defect record is stored.
\<close>

lemma attempt_settles:
  assumes "\<And>vars. body vars newTransaction = Inr (vars, t)" and "lastTransactionError t = None"
  shows "r < n \<Longrightarrow> attempt n r ok d body vars =
           (case commit ok t d of Inl e \<Rightarrow> Inl e | Inr d' \<Rightarrow> Inr (vars, d'))"
proof (induction n arbitrary: r)
  case 0
  then show ?case by simp
next
  case (Suc n)
  show ?case
  proof (cases r)
    case 0
    then show ?thesis by (simp add: assms)
  next
    case (Suc r')
    then have "r' < n" using Suc.prems by simp
    from Suc.IH[OF this] show ?thesis by (simp add: assms Suc)
  qed
qed

lemma addDefectiveItem_plain_names:
  assumes "products d (d_productId x) = Some p"
      and "currentQtyOf p (d_color x) (d_size x) = Num n"
      and "d_quantity x \<le> n"
      and "plainName (d_color x)" and "plainName (d_size x)"
      and "retries < 5"
  shows "addDefectiveItem retries True x d =
           (Inr (),
            d\<lparr>products := (products d)(d_productId x \<mapsto>
                  updateFields [''colors'', d_color x, ''sizes'', d_size x, ''quantity'']
                    (Num (n - d_quantity x)) p),
              defects := (defects d)(d_id x \<mapsto> x)\<rparr>)"
    and "currentQtyOf (updateFields [''colors'', d_color x, ''sizes'', d_size x, ''quantity'']
                    (Num (n - d_quantity x)) p) (d_color x) (d_size x) = Num (n - d_quantity x)"
proof -
  let ?d' = "d\<lparr>products := (products d)(d_productId x \<mapsto>
                  updateFields [''colors'', d_color x, ''sizes'', d_size x, ''quantity'']
                    (Num (n - d_quantity x)) p),
              defects := (defects d)(d_id x \<mapsto> x)\<rparr>"
  let ?body = "\<lambda>vars tx. case addDefectiveItem_body d x tx of
                   Inl e \<Rightarrow> Inl e | Inr tx' \<Rightarrow> Inr (vars, tx')"
  obtain t where b: "addDefectiveItem_body d x newTransaction = Inr t"
    and e: "lastTransactionError t = None" and c: "commit True t d = Inr ?d'"
    using assms(1-5)
    by (simp add: addDefectiveItem_body_def tx_get_def tx_update_def tx_set_def
          newTransaction_def commit_def fieldPath_plain mutationRef_def)
  have "attempt 5 retries True d ?body () = Inr ((), ?d')"
    using attempt_settles[of ?body t retries 5 True d "()"] b e c assms(6) by simp
  then show "addDefectiveItem retries True x d = (Inr (), ?d')"
    by (simp add: addDefectiveItem_def runTransaction_def)
  show "currentQtyOf (updateFields [''colors'', d_color x, ''sizes'', d_size x, ''quantity'']
                    (Num (n - d_quantity x)) p) (d_color x) (d_size x) = Num (n - d_quantity x)"
    by (simp add: currentQtyOf_updated)
qed

text \<open>
  C4 says that every request within the stock of an existing product succeeds and leaves
  the variant at the current quantity minus the requested one. The quantity is read by key
  and written through the dot-separated path \<^verbatim>\<open>colors.<color>.sizes.<size>.quantity\<close>.
  For the size 42.5 the path addresses the field \<^verbatim>\<open>quantity\<close> of a size 5 inside a size 42: the
  request for 3 of 5 succeeds and the variant still holds 5. For the color Black/White the
  path is rejected, and the request for 3 of 5 fails.
\<close>

theorem addDefectiveItem_special_names:
  "fst (addDefectiveItem 0 True (variantDefect ''red'' ''42.5'' 3) (singleDb (variantProduct ''red'' ''42.5'' 5)))
     = Inr ()
   \<and> map_option (\<lambda>p. currentQtyOf p ''red'' ''42.5'')
        (products (snd (addDefectiveItem 0 True (variantDefect ''red'' ''42.5'' 3)
                          (singleDb (variantProduct ''red'' ''42.5'' 5)))) ''p1'')
     = Some (Num 5)
   \<and> addDefectiveItem 0 True (variantDefect ''Black/White'' ''M'' 3) (singleDb (variantProduct ''Black/White'' ''M'' 5))
     = (Inl (InvalidFieldPath ''colors.Black/White.sizes.M.quantity''),
        singleDb (variantProduct ''Black/White'' ''M'' 5))"
  by (simp add: defect_defs tx_defs variantDefect_def singleDb_def variantProduct_def variantColors_def)

section \<open>saveNewInvoice: the shipment record\<close>

lemma foldl_addLine_append:
  "foldl (addLine ops) t (xs @ ys) = foldl (addLine ops) (foldl (addLine ops) t xs) ys"
  by simp

lemma sizesLoop_lines:
  "sizesLoop ops pid pd color szs acc = Inr acc' \<Longrightarrow>
     newItems acc' =
       newItems acc @ map (\<lambda>e. lineOf pid pd (color, e)) (filter (\<lambda>(sz, q). q > 0) szs)
     \<and> totalInvoiceCost acc' =
         foldl (addLine ops) (totalInvoiceCost acc)
           (map (\<lambda>e. lineOf pid pd (color, e)) (filter (\<lambda>(sz, q). q > 0) szs))"
proof (induction szs arbitrary: acc)
  case Nil
  then show ?case by simp
next
  case (Cons a szs)
  obtain sz q where a: "a = (sz, q)" by (cases a)
  show ?case
  proof (cases "q > 0")
    case False
    then show ?thesis using Cons a by simp
  next
    case True
    then obtain tx' where u: "tx_update pid (quantityPath color sz) (js_add (currentQtyOf pd color sz) q) (trans acc) = Inr tx'"
      using Cons.prems a by (auto split: sum.splits)
    let ?acc1 = "acc\<lparr>trans := tx',
                    totalInvoiceCost := js_plus ops (totalInvoiceCost acc) (js_times ops q (purchasePrice pd)),
                    newItems := newItems acc @
                      [\<lparr>l_productId = pid, l_productName = name pd, l_color = color,
                        l_size = sz, l_quantity = q, l_purchasePrice = purchasePrice pd\<rparr>]\<rparr>"
    have "sizesLoop ops pid pd color szs ?acc1 = Inr acc'"
      using Cons.prems a True u by simp
    from Cons.IH[OF this] show ?thesis using a True
      by (simp add: lineOf_def addLine_def)
  qed
qed

lemma positiveEntries_Cons:
  "positiveEntries ((color, sizes) # qs) =
     map (\<lambda>(sz, q). (color, sz, q)) (filter (\<lambda>(sz, q). q > 0) sizes) @ positiveEntries qs"
  by (simp add: positiveEntries_def)

lemma colorsLoop_lines:
  "colorsLoop ops pid pd qs acc = Inr acc' \<Longrightarrow>
     newItems acc' = newItems acc @ map (lineOf pid pd) (positiveEntries qs)
     \<and> totalInvoiceCost acc' =
         foldl (addLine ops) (totalInvoiceCost acc) (map (lineOf pid pd) (positiveEntries qs))"
proof (induction qs arbitrary: acc)
  case Nil
  then show ?case by (simp add: positiveEntries_def)
next
  case (Cons a qs)
  obtain color sizes where a: "a = (color, sizes)" by (cases a)
  from Cons.prems a obtain acc1 where 1: "sizesLoop ops pid pd color sizes acc = Inr acc1"
    and 2: "colorsLoop ops pid pd qs acc1 = Inr acc'"
    by (auto split: sum.splits)
  have m: "lineOf pid pd \<circ> Pair color = (\<lambda>e. lineOf pid pd (color, e))"
    by (simp add: comp_def)
  from sizesLoop_lines[OF 1] Cons.IH[OF 2] show ?case
    by (simp add: a positiveEntries_Cons m)
qed

lemma itemStep_lines:
  assumes "itemStep ops d it acc = Inr acc'"
  shows "newItems acc' = newItems acc @ itemLines d it
     \<and> totalInvoiceCost acc' = foldl (addLine ops) (totalInvoiceCost acc) (itemLines d it)"
proof (cases "isNew it")
  case True
  then show ?thesis using assms by (simp add: itemStep_new)
next
  case False
  from assms obtain doc t2 where g: "tx_get d (productId it) (trans acc) = Inr (doc, t2)"
    by (auto simp: itemStep_old[OF False] split: sum.splits)
  have doc: "doc = products d (productId it)" using tx_get_doc[OF g] .
  from assms g obtain pd where pd: "productDataFor d it = Some pd"
    by (auto simp: itemStep_old[OF False] productDataFor_def doc split: option.splits)
  from assms g pd have l: "colorsLoop ops (productId it) pd (quantities it) (acc\<lparr>trans := t2\<rparr>) = Inr acc'"
    by (simp add: itemStep_old[OF False] productDataFor_def doc)
  from colorsLoop_lines[OF l] show ?thesis by (simp add: itemLines_def pd)
qed

lemma itemsLoop_lines:
  "itemsLoop ops d its acc = Inr acc' \<Longrightarrow>
     newItems acc' = newItems acc @ invoiceLines d its
     \<and> totalInvoiceCost acc' = foldl (addLine ops) (totalInvoiceCost acc) (invoiceLines d its)"
proof (induction its arbitrary: acc)
  case Nil
  then show ?case by (simp add: invoiceLines_def)
next
  case (Cons it its)
  from Cons.prems obtain acc1 where 1: "itemStep ops d it acc = Inr acc1"
    and 2: "itemsLoop ops d its acc1 = Inr acc'"
    by (auto split: sum.splits)
  from itemStep_lines[OF 1] Cons.IH[OF 2] show ?case
    by (simp add: invoiceLines_def)
qed

lemma invoiceLines_positive: "list_all (\<lambda>l. l_quantity l > 0) (invoiceLines d its)"
  by (auto simp: invoiceLines_def itemLines_def positiveEntries_def lineOf_def list_all_iff
           split: option.splits)

lemma saveNewInvoice_body_lines:
  assumes "saveNewInvoice_body ops d now invoice vars t = Inr (vars', t')"
  shows "snd vars' = snd vars @ invoiceLines d (items invoice)"
    and "fst vars' = foldl (addLine ops) (fst vars) (invoiceLines d (items invoice))"
    and "\<exists>ms. mutations t' = ms @ [SetShipment (shipmentIdOf (date invoice) now)
                    \<lparr>s_id = shipmentIdOf (date invoice) now, s_supplierId = supplierId invoice,
                      s_date = date invoice, s_shippingCost = shippingCost invoice,
                      s_items = snd vars', s_totalCost = fst vars'\<rparr>]"
proof -
  from assms obtain acc where
    l: "itemsLoop ops d (items invoice) \<lparr>trans = t, totalInvoiceCost = fst vars, newItems = snd vars\<rparr> = Inr acc"
    and v: "vars' = (totalInvoiceCost acc, newItems acc)"
    and t: "t' = tx_set (SetShipment (shipmentIdOf (date invoice) now)
                    \<lparr>s_id = shipmentIdOf (date invoice) now, s_supplierId = supplierId invoice,
                      s_date = date invoice, s_shippingCost = shippingCost invoice,
                      s_items = newItems acc, s_totalCost = totalInvoiceCost acc\<rparr>) (trans acc)"
    by (auto simp: saveNewInvoice_body_def split: sum.splits)
  from itemsLoop_lines[OF l] show "snd vars' = snd vars @ invoiceLines d (items invoice)"
    and "fst vars' = foldl (addLine ops) (fst vars) (invoiceLines d (items invoice))"
    by (simp_all add: v)
  show "\<exists>ms. mutations t' = ms @ [SetShipment (shipmentIdOf (date invoice) now)
                    \<lparr>s_id = shipmentIdOf (date invoice) now, s_supplierId = supplierId invoice,
                      s_date = date invoice, s_shippingCost = shippingCost invoice,
                      s_items = snd vars', s_totalCost = fst vars'\<rparr>]"
    by (simp add: t v tx_set_def)
qed

lemma attempt_success:
  "attempt n r ok d body vars = Inr (vars', d') \<Longrightarrow>
     r < n \<and> (\<exists>vars1 t. afterRuns body r vars = Some vars1
                \<and> body vars1 newTransaction = Inr (vars', t)
                \<and> lastTransactionError t = None
                \<and> applyMutations (mutations t) d = Some d')"
proof (induction n arbitrary: r vars)
  case 0
  then show ?case by simp
next
  case (Suc n)
  from Suc.prems obtain v1 t where b: "body vars newTransaction = Inr (v1, t)"
    by (auto split: sum.splits)
  show ?case
  proof (cases "lastTransactionError t = None \<and> 0 < r")
    case True
    then obtain r' where r: "r = Suc r'" by (cases r) auto
    from Suc.prems b True have "attempt n r' ok d body v1 = Inr (vars', d')" by (simp add: r)
    from Suc.IH[OF this] show ?thesis using b by (simp add: r)
  next
    case False
    with Suc.prems b have c: "commit ok t d = Inr d'" and v: "vars' = v1"
      by (auto split: sum.splits)
    from commit_success[OF c] have e: "lastTransactionError t = None"
      and a: "applyMutations (mutations t) d = Some d'" by simp_all
    from False e have "r = 0" by simp
    then show ?thesis using b e a v by simp
  qed
qed

lemma afterRuns_lines:
  "afterRuns (saveNewInvoice_body ops d now invoice) r vars = Some vars1 \<Longrightarrow>
     snd vars1 = snd vars @ concat (replicate r (invoiceLines d (items invoice)))
     \<and> fst vars1 = foldl (addLine ops) (fst vars) (concat (replicate r (invoiceLines d (items invoice))))"
proof (induction r arbitrary: vars)
  case 0
  then show ?case by simp
next
  case (Suc r)
  from Suc.prems obtain v1 t where
    b: "saveNewInvoice_body ops d now invoice vars newTransaction = Inr (v1, t)"
    and a: "afterRuns (saveNewInvoice_body ops d now invoice) r v1 = Some vars1"
    by (auto split: sum.splits)
  from saveNewInvoice_body_lines(1,2)[OF b] Suc.IH[OF a] show ?case by simp
qed

lemma concat_replicate_snoc: "concat (replicate r xs) @ xs = concat (replicate (Suc r) xs)"
  by (induction r) simp_all

text \<open>
  C1. Whenever saveNewInvoice succeeds, the shipment record it has written under the
  returned identifier has totalCost equal to the sum, over its items in order, of quantity
  times purchasePrice, computed with the program's own arithmetic; every item has a
  positive quantity. The items are the invoice's lines (one for each (color, size) entry
  with a quantity greater than 0, with the name and price of the product data read), once
  for every attempt the transaction made: exactly the invoice's lines when the first
  commit is not refused.
\<close>

theorem saveNewInvoice_totalCost:
  assumes "saveNewInvoice ops retries storeAccepts now invoice d = (Inr sid, d')"
  shows "\<exists>sh. shipments d' sid = Some sh
           \<and> s_totalCost sh = sumLines ops (s_items sh)
           \<and> list_all (\<lambda>l. l_quantity l > 0) (s_items sh)
           \<and> s_items sh = concat (replicate (Suc retries) (invoiceLines d (items invoice)))"
proof -
  let ?L = "invoiceLines d (items invoice)"
  let ?body = "saveNewInvoice_body ops d now invoice"
  from assms obtain vars' where
    run: "runTransaction retries storeAccepts d ?body (js_zero ops, []) = Inr (vars', d')"
    and sid: "sid = shipmentIdOf (date invoice) now"
    by (auto simp: saveNewInvoice_def split: sum.splits)
  from attempt_success[OF run[unfolded runTransaction_def]] obtain vars1 t where
    ar: "afterRuns ?body retries (js_zero ops, []) = Some vars1"
    and b: "?body vars1 newTransaction = Inr (vars', t)"
    and a: "applyMutations (mutations t) d = Some d'"
    by blast
  note before = afterRuns_lines[OF ar] and now = saveNewInvoice_body_lines[OF b]
  let ?sh = "\<lparr>s_id = sid, s_supplierId = supplierId invoice,
                      s_date = date invoice, s_shippingCost = shippingCost invoice,
                      s_items = snd vars', s_totalCost = fst vars'\<rparr>"
  from now(3) a have 1: "shipments d' sid = Some ?sh"
    by (auto simp: sid dest: applyMutations_last_shipment)
  have 2: "snd vars' = concat (replicate (Suc retries) ?L)"
    using before now(1) concat_replicate_snoc[of retries ?L] by simp
  have 3: "fst vars' = sumLines ops (snd vars')"
    using before now(1,2) by (simp add: sumLines_def)
  have "list_all (\<lambda>l. l_quantity l > 0) (concat (replicate (Suc retries) ?L))"
    using invoiceLines_positive[of d "items invoice"] by (auto simp: list_all_iff)
  then have 4: "list_all (\<lambda>l. l_quantity l > 0) (snd vars')" by (simp only: 2)
  from 1 2 3 4 show ?thesis by simp
qed

lemma exampleInvoice_succeeds:
  "fst (saveNewInvoice exactOps 0 True ''1714557600123'' (exampleInvoice [exampleItem1]) (exampleDb 0))
     = Inr ''SH20240501-00123''"
  by (simp add: invoice_defs tx_defs exampleInvoice_def exampleItem1_def exampleDb_def
        exampleProduct_def variantColors_def)

lemma exampleInvoice_lines:
  "invoiceLines (exampleDb 0) (items (exampleInvoice [exampleItem1])) =
     [\<lparr>l_productId = ''p1'', l_productName = ''Shoe'', l_color = ''red'', l_size = ''M'',
       l_quantity = 5, l_purchasePrice = 20\<rparr>]"
  by (simp add: invoiceLines_def itemLines_def productDataFor_def positiveEntries_def lineOf_def
        exampleInvoice_def exampleItem1_def exampleDb_def exampleProduct_def)

theorem saveNewInvoice_totalCost_witness:
  "\<exists>sh. shipments (snd (saveNewInvoice exactOps 0 True ''1714557600123''
                            (exampleInvoice [exampleItem1]) (exampleDb 0)))
            ''SH20240501-00123'' = Some sh
         \<and> s_totalCost sh = 100
         \<and> s_items sh =
             [\<lparr>l_productId = ''p1'', l_productName = ''Shoe'', l_color = ''red'', l_size = ''M'',
               l_quantity = 5, l_purchasePrice = 20\<rparr>]"
proof -
  have h: "saveNewInvoice exactOps 0 True ''1714557600123'' (exampleInvoice [exampleItem1]) (exampleDb 0)
       = (Inr ''SH20240501-00123'',
          snd (saveNewInvoice exactOps 0 True ''1714557600123'' (exampleInvoice [exampleItem1]) (exampleDb 0)))"
    using exampleInvoice_succeeds by (simp add: prod_eq_iff)
  from saveNewInvoice_totalCost [OF h] obtain sh where
    1: "shipments (snd (saveNewInvoice exactOps 0 True ''1714557600123''
                            (exampleInvoice [exampleItem1]) (exampleDb 0)))
            ''SH20240501-00123'' = Some sh"
    and 2: "s_totalCost sh = sumLines exactOps (s_items sh)"
    and 3: "s_items sh = concat (replicate (Suc 0) (invoiceLines (exampleDb 0) (items (exampleInvoice [exampleItem1]))))"
    by blast
  have 4: "s_items sh =
             [\<lparr>l_productId = ''p1'', l_productName = ''Shoe'', l_color = ''red'', l_size = ''M'',
               l_quantity = 5, l_purchasePrice = 20\<rparr>]"
    using 3 by (simp add: exampleInvoice_lines)
  have 5: "s_totalCost sh = 100"
    by (simp add: 2 4 sumLines_def addLine_def exactOps_def)
  from 1 4 5 show ?thesis by blast
qed

text \<open>
  When the store refuses the first commit with a transient error, the update function runs
  a second time and goes on from the lines and the total the first run left: the shipment
  of an invoice with the single line of 5 units at 20 then holds that line twice, at a
  total of 200, while the stock of the variant has risen by 5.
\<close>

lemma exampleInvoice_retried:
  "map_option (\<lambda>sh. (s_totalCost sh, map l_quantity (s_items sh)))
     (shipments (snd (saveNewInvoice exactOps 1 True ''1714557600123''
                        (exampleInvoice [exampleItem1]) (exampleDb 0))) ''SH20240501-00123'')
     = Some (200, [5, 5])
   \<and> map_option (\<lambda>p. currentQtyOf p ''red'' ''M'')
       (products (snd (saveNewInvoice exactOps 1 True ''1714557600123''
                        (exampleInvoice [exampleItem1]) (exampleDb 0))) ''p1'')
     = Some (Num 5)"
proof -
  have 4: "(4::nat) = Suc 3" by simp
  have second: "attempt 4 r ok d body vars =
     (case body vars newTransaction of
        Inl e \<Rightarrow> Inl e
      | Inr (vars', tx) \<Rightarrow>
          if lastTransactionError tx = None \<and> 0 < r
          then attempt 3 (r - 1) ok d body vars'
          else (case commit ok tx d of Inl e \<Rightarrow> Inl e | Inr d' \<Rightarrow> Inr (vars', d')))"
    for r ok and d :: "rat db" and body :: "rat \<times> rat shipmentLine list \<Rightarrow> _" and vars
    by (simp only: 4 attempt.simps)
  show ?thesis
    by (simp add: invoice_defs tx_defs second exampleInvoice_def exampleItem1_def exampleDb_def
          exampleProduct_def variantColors_def exactOps_def)
qed

section \<open>saveNewInvoice: failures\<close>

text \<open>
  Every failure of saveNewInvoice leaves the store as it was; and the invoice fails as
  soon as one of its items cannot be processed.
\<close>

lemma saveNewInvoice_failure_writes_nothing:
  "saveNewInvoice ops retries ok now invoice d = (Inl e, d') \<Longrightarrow> d' = d"
  by (auto simp: saveNewInvoice_def split: sum.splits)

lemma itemsLoop_fails:
  assumes "it \<in> set its" and "\<And>acc. \<exists>e. itemStep ops d it acc = Inl e"
  shows "\<exists>e. itemsLoop ops d its acc = Inl e"
  using assms(1)
proof (induction its arbitrary: acc)
  case Nil
  then show ?case by simp
next
  case (Cons a its)
  show ?case
  proof (cases "itemStep ops d a acc")
    case (Inl e)
    then show ?thesis by simp
  next
    case (Inr acc1)
    then have "a \<noteq> it" using assms(2)[of acc] by auto
    then have "it \<in> set its" using Cons.prems by simp
    from Cons.IH[OF this, of acc1] show ?thesis using Inr by simp
  qed
qed

lemma saveNewInvoice_loop_fails:
  assumes "\<And>acc. \<exists>e. itemsLoop ops d (items invoice) acc = Inl e"
  shows "\<exists>e. saveNewInvoice ops retries ok now invoice d = (Inl e, d)"
proof -
  obtain e where "itemsLoop ops d (items invoice)
      \<lparr>trans = newTransaction, totalInvoiceCost = js_zero ops, newItems = []\<rparr> = Inl e"
    using assms by blast
  then show ?thesis
    by (simp add: saveNewInvoice_def runTransaction_unfold saveNewInvoice_body_def)
qed

lemma itemStep_missing:
  assumes "products d (productId it) = None" and "productData it = None"
  shows "\<exists>e. itemStep ops d it acc = Inl e"
proof (cases "isNew it")
  case True
  then show ?thesis by (simp add: itemStep_new)
next
  case False
  then show ?thesis using assms by (simp add: itemStep_old tx_get_def)
qed

lemma saveNewInvoice_missing_data:
  assumes "it \<in> set (items invoice)" and "products d (productId it) = None" and "productData it = None"
  shows "\<exists>e. saveNewInvoice ops retries ok now invoice d = (Inl e, d)"
  by (rule saveNewInvoice_loop_fails, rule itemsLoop_fails [OF assms(1)], rule itemStep_missing [OF assms(2,3)])

text \<open>
  C5 says that an invoice with a line item whose product data is missing (no product
  document and no payload) aborts with the product-not-found failure and writes nothing.
  Such an invoice always fails and writes nothing, but the failure need not be
  product-not-found. For an item flagged new, \<^verbatim>\<open>item.productData.id\<close> is evaluated before
  the check for missing data, and the invoice aborts with a TypeError. For an item that
  follows a line with a positive quantity, \<^verbatim>\<open>transaction.get\<close> is called after a write has
  been buffered, and the invoice aborts with Firestore's reads-before-writes error.
\<close>

theorem saveNewInvoice_missing_data_other_failure:
  "productData newMissingItem = None
   \<and> products (exampleDb 0) (productId newMissingItem) = None
   \<and> saveNewInvoice exactOps 0 True ''1714557600123'' (exampleInvoice [newMissingItem]) (exampleDb 0)
       = (Inl TypeError, exampleDb 0)
   \<and> productData missingItem = None
   \<and> products (exampleDb 0) (productId missingItem) = None
   \<and> saveNewInvoice exactOps 0 True ''1714557600123'' (exampleInvoice [exampleItem1, missingItem]) (exampleDb 0)
       = (Inl ReadAfterWrite, exampleDb 0)"
  by (simp add: invoice_defs tx_defs exampleInvoice_def exampleItem1_def missingItem_def
        newMissingItem_def exampleDb_def exampleProduct_def variantColors_def)

text \<open>
  An invoice with a line item flagged new always fails: the product is set, and the read
  that follows is a read after a write.
\<close>

lemma saveNewInvoice_new_item:
  assumes "it \<in> set (items invoice)" and "isNew it"
  shows "\<exists>e. saveNewInvoice ops retries ok now invoice d = (Inl e, d)"
  by (rule saveNewInvoice_loop_fails, rule itemsLoop_fails [OF assms(1)]) (simp add: itemStep_new [OF assms(2)])

lemma tx_update_doomed: "tx_update pid path v t = Inr t' \<Longrightarrow> doomed t \<Longrightarrow> doomed t'"
  by (auto simp: tx_update_def doomed_def split: sum.splits if_splits)

lemma tx_update_inv: "tx_update pid path v t = Inr t' \<Longrightarrow> txInv t'"
  by (auto simp: tx_update_def doomed_def txInv_def split: sum.splits if_splits)

lemma tx_update_armed: "tx_update pid path v t = Inr t' \<Longrightarrow> armed pid t \<Longrightarrow> doomed t'"
  by (auto simp: tx_update_def doomed_def armed_def split: sum.splits if_splits)

lemma sizesLoop_doomed:
  "sizesLoop ops pid pd color szs acc = Inr acc' \<Longrightarrow>
     (doomed (trans acc) \<longrightarrow> doomed (trans acc')) \<and> (txInv (trans acc) \<longrightarrow> txInv (trans acc'))
     \<and> (armed pid (trans acc) \<longrightarrow> (if filter (\<lambda>(sz, q). q > 0) szs = [] then acc' = acc else doomed (trans acc')))"
proof (induction szs arbitrary: acc)
  case Nil
  then show ?case by simp
next
  case (Cons a szs)
  obtain sz q where a: "a = (sz, q)" by (cases a)
  show ?case
  proof (cases "q > 0")
    case False
    then show ?thesis using Cons a by simp
  next
    case True
    then obtain tx' where u: "tx_update pid (quantityPath color sz) (js_add (currentQtyOf pd color sz) q) (trans acc) = Inr tx'"
      using Cons.prems a by (auto split: sum.splits)
    let ?acc1 = "acc\<lparr>trans := tx',
                    totalInvoiceCost := js_plus ops (totalInvoiceCost acc) (js_times ops q (purchasePrice pd)),
                    newItems := newItems acc @
                      [\<lparr>l_productId = pid, l_productName = name pd, l_color = color,
                        l_size = sz, l_quantity = q, l_purchasePrice = purchasePrice pd\<rparr>]\<rparr>"
    have l: "sizesLoop ops pid pd color szs ?acc1 = Inr acc'"
      using Cons.prems a True u by simp
    from Cons.IH[OF l] tx_update_doomed[OF u] tx_update_inv[OF u] tx_update_armed[OF u]
    show ?thesis using a True by auto
  qed
qed

lemma colorsLoop_doomed:
  "colorsLoop ops pid pd qs acc = Inr acc' \<Longrightarrow>
     (doomed (trans acc) \<longrightarrow> doomed (trans acc')) \<and> (txInv (trans acc) \<longrightarrow> txInv (trans acc'))
     \<and> (armed pid (trans acc) \<longrightarrow> (if positiveEntries qs = [] then acc' = acc else doomed (trans acc')))"
proof (induction qs arbitrary: acc)
  case Nil
  then show ?case by (simp add: positiveEntries_def)
next
  case (Cons a qs)
  obtain color sizes where a: "a = (color, sizes)" by (cases a)
  from Cons.prems a obtain acc1 where 1: "sizesLoop ops pid pd color sizes acc = Inr acc1"
    and 2: "colorsLoop ops pid pd qs acc1 = Inr acc'"
    by (auto split: sum.splits)
  note s = sizesLoop_doomed[OF 1] and c = Cons.IH[OF 2]
  have d: "doomed (trans acc) \<longrightarrow> doomed (trans acc')" using s c by simp
  have i: "txInv (trans acc) \<longrightarrow> txInv (trans acc')" using s c by simp
  have r: "if positiveEntries (a # qs) = [] then acc' = acc else doomed (trans acc')"
    if ar: "armed pid (trans acc)"
  proof (cases "filter (\<lambda>(sz, q). q > 0) sizes = []")
    case True
    then have "acc1 = acc" using s ar by simp
    then show ?thesis using c ar True by (simp add: a positiveEntries_Cons)
  next
    case False
    then have "doomed (trans acc1)" using s ar by simp
    then have "doomed (trans acc')" using c by simp
    then show ?thesis using False by (simp add: a positiveEntries_Cons)
  qed
  from d i r show ?case by simp
qed

lemma itemStep_doomed:
  assumes "itemStep ops d it acc = Inr acc'"
  shows "(doomed (trans acc) \<longrightarrow> doomed (trans acc')) \<and> (txInv (trans acc) \<longrightarrow> txInv (trans acc'))"
proof (cases "isNew it")
  case True
  then show ?thesis using assms by (simp add: itemStep_new)
next
  case False
  from assms obtain doc t2 where g: "tx_get d (productId it) (trans acc) = Inr (doc, t2)"
    by (auto simp: itemStep_old[OF False] split: sum.splits)
  from assms g obtain pd where l: "colorsLoop ops (productId it) pd (quantities it) (acc\<lparr>trans := t2\<rparr>) = Inr acc'"
    by (auto simp: itemStep_old[OF False] split: option.splits)
  from colorsLoop_doomed[OF l] tx_get_props[OF g] show ?thesis by simp
qed

lemma itemStep_fallback:
  assumes "itemStep ops d it acc = Inr acc'" and "txInv (trans acc)"
    and "products d (productId it) = None" and "productData it = Some pd"
    and "positiveEntries (quantities it) \<noteq> []"
  shows "doomed (trans acc')"
proof (cases "isNew it")
  case True
  then show ?thesis using assms by (simp add: itemStep_new)
next
  case False
  from assms(1) obtain doc t2 where g: "tx_get d (productId it) (trans acc) = Inr (doc, t2)"
    by (auto simp: itemStep_old[OF False] split: sum.splits)
  note gp = tx_get_props[OF g]
  from assms(1,3,4) g gp have l: "colorsLoop ops (productId it) pd (quantities it) (acc\<lparr>trans := t2\<rparr>) = Inr acc'"
    by (simp add: itemStep_old[OF False])
  have "doomed t2 \<or> armed (productId it) t2"
    using assms(2,3) gp by (auto simp: txInv_def armed_def)
  then show ?thesis using colorsLoop_doomed[OF l] assms(5) by auto
qed

lemma itemsLoop_doomed:
  "itemsLoop ops d its acc = Inr acc' \<Longrightarrow>
     (doomed (trans acc) \<longrightarrow> doomed (trans acc')) \<and> (txInv (trans acc) \<longrightarrow> txInv (trans acc'))"
proof (induction its arbitrary: acc)
  case Nil
  then show ?case by simp
next
  case (Cons a its)
  from Cons.prems obtain acc1 where 1: "itemStep ops d a acc = Inr acc1"
    and 2: "itemsLoop ops d its acc1 = Inr acc'"
    by (auto split: sum.splits)
  from itemStep_doomed[OF 1] Cons.IH[OF 2] show ?case by simp
qed

lemma itemsLoop_fallback:
  assumes "it \<in> set its" and "products d (productId it) = None" and "productData it = Some pd"
    and "positiveEntries (quantities it) \<noteq> []"
  shows "itemsLoop ops d its acc = Inr acc' \<Longrightarrow> txInv (trans acc) \<Longrightarrow> doomed (trans acc')"
  using assms(1)
proof (induction its arbitrary: acc)
  case Nil
  then show ?case by simp
next
  case (Cons a its)
  from Cons.prems(1) obtain acc1 where 1: "itemStep ops d a acc = Inr acc1"
    and 2: "itemsLoop ops d its acc1 = Inr acc'"
    by (auto split: sum.splits)
  show ?case
  proof (cases "a = it")
    case True
    have "doomed (trans acc1)"
      using itemStep_fallback[OF 1[unfolded True] Cons.prems(2) assms(2,3,4)] .
    then show ?thesis using itemsLoop_doomed[OF 2] by simp
  next
    case False
    then have "it \<in> set its" using Cons.prems(3) by simp
    moreover have "txInv (trans acc1)" using itemStep_doomed[OF 1] Cons.prems(2) by simp
    ultimately show ?thesis using Cons.IH[OF 2] by simp
  qed
qed

text \<open>
  An invoice with a line item that has a positive quantity, whose product document is
  absent and whose data comes from the payload, always fails and writes nothing: the update
  of the absent document cannot commit.
\<close>

lemma saveNewInvoice_payload_fallback:
  assumes "it \<in> set (items invoice)" and "products d (productId it) = None"
    and "productData it = Some pd" and "positiveEntries (quantities it) \<noteq> []"
  shows "\<exists>e. saveNewInvoice ops retries ok now invoice d = (Inl e, d)"
proof (cases "saveNewInvoice_body ops d now invoice (js_zero ops, []) newTransaction")
  case (Inl e)
  then show ?thesis by (simp add: saveNewInvoice_def runTransaction_unfold)
next
  case (Inr r)
  obtain vars t where r: "r = (vars, t)" by (cases r)
  from Inr r obtain acc m where
    l: "itemsLoop ops d (items invoice)
          \<lparr>trans = newTransaction, totalInvoiceCost = js_zero ops, newItems = []\<rparr> = Inr acc"
    and t: "t = tx_set m (trans acc)"
    by (auto simp: saveNewInvoice_body_def split: sum.splits)
  have "txInv newTransaction" by (simp add: txInv_def newTransaction_def)
  then have "doomed (trans acc)" using itemsLoop_fallback[OF assms l] by simp
  then obtain e where "lastTransactionError t = Some e"
    by (auto simp: t tx_set_def doomed_def)
  then show ?thesis using Inr r
    by (simp add: saveNewInvoice_def runTransaction_unfold commit_def)
qed

text \<open>
  C9 says that a line item whose product document is absent but which carries a payload
  does not abort the invoice, flagged new or not. For a new product with 10 units the
  invoice aborts at the read that follows the set; for the same item not flagged new it
  aborts at commit, the update being of a document that does not exist. Nothing is
  written in either case.
\<close>

theorem saveNewInvoice_payload_aborts:
  "saveNewInvoice exactOps 0 True ''1714557600123'' (exampleInvoice [newItem]) (exampleDb 0)
     = (Inl ReadAfterWrite, exampleDb 0)
   \<and> saveNewInvoice exactOps 0 True ''1714557600123'' (exampleInvoice [payloadItem]) (exampleDb 0)
     = (Inl UpdateOfMissingDocument, exampleDb 0)"
  by (simp add: invoice_defs tx_defs exampleInvoice_def newItem_def payloadItem_def payloadProduct_def
        exampleDb_def exampleProduct_def variantColors_def)

section \<open>Stock never becomes negative\<close>

lemma harmless_simps [simp]: "harmless None" "harmless (Some (Obj m))"
  by (simp_all add: harmless_def)

lemma harmless_val: "notNegative v \<Longrightarrow> harmless (Some v)"
  by (cases v) (simp_all add: harmless_def)

lemma read_after_write:
  assumes "notNegative v" and "\<not> isObj v"
  shows "harmless (getPath r old) \<Longrightarrow> harmless (getPath r (Some (setPath p v old)))"
proof (induction p arbitrary: r old)
  case Nil
  show ?case
  proof (cases r)
    case Nil
    then show ?thesis using assms by (simp add: harmless_val)
  next
    case (Cons k r')
    then show ?thesis using assms getPath_leaf[of v r] by simp
  qed
next
  case (Cons k ks)
  show ?case
  proof (cases r)
    case Nil
    then show ?thesis by (simp split: option.splits fval.splits)
  next
    case r: (Cons k' r')
    show ?thesis
    proof (cases "\<exists>m. old = Some (Obj m)")
      case True
      then obtain m where old: "old = Some (Obj m)" by blast
      show ?thesis
      proof (cases "k' = k")
        case True
        have "harmless (getPath r' (m k))" using Cons.prems r old True by (simp add: getPath_Cons)
        from Cons.IH[OF this] show ?thesis using r old True by (simp add: getPath_Cons)
      next
        case False
        then show ?thesis using Cons.prems r old by (simp add: getPath_Cons)
      qed
    next
      case False
      then have sp: "setPath (k # ks) v old = Obj (Map.empty(k \<mapsto> setPath ks v None))"
        by (auto split: option.splits fval.splits)
      show ?thesis
      proof (cases "k' = k")
        case True
        have "harmless (getPath r' None)" by simp
        from Cons.IH[OF this] show ?thesis using r True sp by (simp add: getPath_Cons)
      next
        case False
        then show ?thesis using r sp by (simp add: getPath_Cons)
      qed
    qed
  qed
qed

lemma updateFields_nonneg:
  assumes "productNonNegative p" and "notNegative v" and "\<not> isObj v"
  shows "productNonNegative (updateFields segs v p)"
proof (cases segs)
  case Nil
  then show ?thesis using assms by (simp add: updateFields_def)
next
  case (Cons f rest)
  show ?thesis
  proof (cases "f = ''colors''")
    case False
    then show ?thesis using assms Cons by (simp add: updateFields_def)
  next
    case True
    have "notNegative (currentQtyOf (p\<lparr>colors := Some (setPath rest v (colors p))\<rparr>) c s)" for c s
      using read_after_write[OF assms(2,3), of "[c, ''sizes'', s, ''quantity'']" "colors p" rest] assms(1)
      by (simp add: currentQtyOf_getPath productNonNegative_def harmless_def)
    then show ?thesis using True Cons by (simp add: updateFields_def productNonNegative_def)
  qed
qed

lemma applyMutation_safe:
  "stockNonNegative d \<Longrightarrow> safeMutation m \<Longrightarrow> applyMutation m d = Some d' \<Longrightarrow> stockNonNegative d'"
  by (cases m) (auto simp: stockNonNegative_def updateFields_nonneg split: option.splits if_splits)

lemma applyMutations_safe:
  "stockNonNegative d \<Longrightarrow> list_all safeMutation ms \<Longrightarrow> applyMutations ms d = Some d' \<Longrightarrow> stockNonNegative d'"
proof (induction ms arbitrary: d)
  case Nil
  then show ?case by simp
next
  case (Cons m ms)
  then show ?case by (auto split: option.splits dest: applyMutation_safe)
qed

lemma safeTx_new [simp]: "safeTx newTransaction"
  by (simp add: safeTx_def newTransaction_def)

lemma tx_get_safe: "tx_get d pid t = Inr (doc, t') \<Longrightarrow> safeTx t \<Longrightarrow> safeTx t'"
  by (auto simp: tx_get_def safeTx_def split: if_splits)

lemma tx_set_safe: "safeMutation m \<Longrightarrow> safeTx t \<Longrightarrow> safeTx (tx_set m t)"
  by (simp add: tx_set_def safeTx_def)

lemma tx_update_safe:
  "tx_update pid path v t = Inr t' \<Longrightarrow> notNegative v \<Longrightarrow> \<not> isObj v \<Longrightarrow> safeTx t \<Longrightarrow> safeTx t'"
  by (auto simp: tx_update_def safeTx_def split: sum.splits if_splits)

lemma js_sub_safe:
  "notNegative cur \<Longrightarrow> \<not> js_gt q cur \<Longrightarrow> notNegative (js_sub cur q) \<and> \<not> isObj (js_sub cur q)"
  by (cases cur) simp_all

lemma js_add_safe:
  "notNegative cur \<Longrightarrow> 0 < q \<Longrightarrow> notNegative (js_add cur q) \<and> \<not> isObj (js_add cur q)"
  by (cases cur) simp_all

lemma addDefectiveItem_body_safe:
  assumes "stockNonNegative d" and "addDefectiveItem_body d x newTransaction = Inr t"
  shows "safeTx t"
proof -
  from assms(2) obtain p t1 t2 where
    g: "tx_get d (d_productId x) newTransaction = Inr (Some p, t1)"
    and ngt: "\<not> js_gt (d_quantity x) (currentQtyOf p (d_color x) (d_size x))"
    and u: "tx_update (d_productId x) (quantityPath (d_color x) (d_size x))
              (js_sub (currentQtyOf p (d_color x) (d_size x)) (d_quantity x)) t1 = Inr t2"
    and t: "t = tx_set (SetDefect (d_id x) x) t2"
    by (auto simp: addDefectiveItem_body_def Let_def split: sum.splits option.splits if_splits)
  have "products d (d_productId x) = Some p" using tx_get_doc[OF g] by simp
  then have nn: "notNegative (currentQtyOf p (d_color x) (d_size x))"
    using assms(1) by (auto simp: stockNonNegative_def productNonNegative_def)
  have "safeTx t1" using tx_get_safe[OF g] by simp
  then have "safeTx t2" using tx_update_safe[OF u] js_sub_safe[OF nn ngt] by simp
  then show ?thesis by (simp add: t tx_set_safe)
qed

lemma sizesLoop_safe:
  "sizesLoop ops pid pd color szs acc = Inr acc' \<Longrightarrow> productNonNegative pd \<Longrightarrow>
     safeTx (trans acc) \<Longrightarrow> safeTx (trans acc')"
proof (induction szs arbitrary: acc)
  case Nil
  then show ?case by simp
next
  case (Cons a szs)
  obtain sz q where a: "a = (sz, q)" by (cases a)
  show ?case
  proof (cases "q > 0")
    case False
    then show ?thesis using Cons a by simp
  next
    case True
    then obtain tx' where u: "tx_update pid (quantityPath color sz) (js_add (currentQtyOf pd color sz) q) (trans acc) = Inr tx'"
      using Cons.prems a by (auto split: sum.splits)
    let ?acc1 = "acc\<lparr>trans := tx',
                    totalInvoiceCost := js_plus ops (totalInvoiceCost acc) (js_times ops q (purchasePrice pd)),
                    newItems := newItems acc @
                      [\<lparr>l_productId = pid, l_productName = name pd, l_color = color,
                        l_size = sz, l_quantity = q, l_purchasePrice = purchasePrice pd\<rparr>]\<rparr>"
    have l: "sizesLoop ops pid pd color szs ?acc1 = Inr acc'"
      using Cons.prems a True u by simp
    have "notNegative (currentQtyOf pd color sz)"
      using Cons.prems(2) by (simp add: productNonNegative_def)
    then have "safeTx tx'"
      using tx_update_safe[OF u] js_add_safe[OF _ True] Cons.prems(3) by simp
    then show ?thesis using Cons.IH[OF l Cons.prems(2)] by simp
  qed
qed

lemma colorsLoop_safe:
  "colorsLoop ops pid pd qs acc = Inr acc' \<Longrightarrow> productNonNegative pd \<Longrightarrow>
     safeTx (trans acc) \<Longrightarrow> safeTx (trans acc')"
proof (induction qs arbitrary: acc)
  case Nil
  then show ?case by simp
next
  case (Cons a qs)
  obtain color sizes where a: "a = (color, sizes)" by (cases a)
  from Cons.prems a obtain acc1 where 1: "sizesLoop ops pid pd color sizes acc = Inr acc1"
    and 2: "colorsLoop ops pid pd qs acc1 = Inr acc'"
    by (auto split: sum.splits)
  from sizesLoop_safe[OF 1 Cons.prems(2,3)] Cons.IH[OF 2 Cons.prems(2)] show ?case by simp
qed

lemma itemStep_safe:
  assumes "itemStep ops d it acc = Inr acc'" and "stockNonNegative d" and "payloadNonNegative it"
    and "safeTx (trans acc)"
  shows "safeTx (trans acc')"
proof (cases "isNew it")
  case True
  then show ?thesis using assms(1) by (simp add: itemStep_new)
next
  case False
  from assms(1) obtain doc t2 where g: "tx_get d (productId it) (trans acc) = Inr (doc, t2)"
    by (auto simp: itemStep_old[OF False] split: sum.splits)
  from assms(1) g obtain pd where pd: "(case doc of Some p \<Rightarrow> Some p | None \<Rightarrow> productData it) = Some pd"
    by (auto simp: itemStep_old[OF False] split: option.splits)
  from assms(1) g pd have l: "colorsLoop ops (productId it) pd (quantities it) (acc\<lparr>trans := t2\<rparr>) = Inr acc'"
    by (simp add: itemStep_old[OF False])
  have s2: "safeTx t2" using tx_get_safe[OF g] assms(4) by simp
  have "productNonNegative pd"
    using pd tx_get_doc[OF g] assms(2,3)
    by (auto simp: stockNonNegative_def payloadNonNegative_def split: option.splits)
  from colorsLoop_safe[OF l this] s2 show ?thesis by simp
qed

lemma itemsLoop_safe:
  "itemsLoop ops d its acc = Inr acc' \<Longrightarrow> stockNonNegative d \<Longrightarrow> list_all payloadNonNegative its \<Longrightarrow>
     safeTx (trans acc) \<Longrightarrow> safeTx (trans acc')"
proof (induction its arbitrary: acc)
  case Nil
  then show ?case by simp
next
  case (Cons it its)
  from Cons.prems(1) obtain acc1 where 1: "itemStep ops d it acc = Inr acc1"
    and 2: "itemsLoop ops d its acc1 = Inr acc'"
    by (auto split: sum.splits)
  have "safeTx (trans acc1)" using itemStep_safe[OF 1] Cons.prems by simp
  then show ?case using Cons.IH[OF 2] Cons.prems by simp
qed

lemma attempt_safe:
  assumes "stockNonNegative d"
    and "\<And>vars vars' t. body vars newTransaction = Inr (vars', t) \<Longrightarrow> safeTx t"
  shows "attempt n retries ok d body vars = Inr (vars', d') \<Longrightarrow> stockNonNegative d'"
proof (induction n arbitrary: retries vars)
  case 0
  then show ?case by simp
next
  case (Suc n)
  from Suc.prems obtain v t where b: "body vars newTransaction = Inr (v, t)"
    by (auto split: sum.splits)
  show ?case
  proof (cases "lastTransactionError t = None \<and> 0 < retries")
    case True
    then have "attempt n (retries - 1) ok d body v = Inr (vars', d')"
      using Suc.prems b by simp
    then show ?thesis by (rule Suc.IH)
  next
    case False
    then have "commit ok t d = Inr d'"
      using Suc.prems b by (auto split: sum.splits)
    then have "applyMutations (mutations t) d = Some d'"
      by (auto simp: commit_def split: option.splits if_splits)
    then show ?thesis using applyMutations_safe[OF assms(1)] assms(2)[OF b] by (simp add: safeTx_def)
  qed
qed

lemma runTransaction_safe:
  assumes "stockNonNegative d"
    and "\<And>vars vars' t. body vars newTransaction = Inr (vars', t) \<Longrightarrow> safeTx t"
    and "runTransaction retries ok d body vars = Inr (vars', d')"
  shows "stockNonNegative d'"
proof -
  have a: "attempt 5 retries ok d body vars = Inr (vars', d')"
    using assms(3) by (simp add: runTransaction_def)
  show ?thesis by (rule attempt_safe[OF assms(1) _ a]) (erule assms(2))
qed

text \<open>
  C2. Starting from a store in which no product's variant quantity is negative, recording a
  defect leaves no variant quantity negative, whatever the request and whether or not it
  succeeds; and so does committing an invoice, the product payloads the invoice carries
  having no negative quantity either. Neither operation writes a negative quantity.
\<close>

theorem stock_never_negative:
  assumes "stockNonNegative d"
  shows "stockNonNegative (snd (addDefectiveItem retries ok x d))
       \<and> (list_all payloadNonNegative (items invoice) \<longrightarrow>
            stockNonNegative (snd (saveNewInvoice ops retries ok now invoice d)))"
proof
  let ?body = "\<lambda>vars tx. case addDefectiveItem_body d x tx of
                   Inl e \<Rightarrow> Inl e | Inr tx' \<Rightarrow> Inr (vars, tx')"
  show "stockNonNegative (snd (addDefectiveItem retries ok x d))"
  proof (cases "runTransaction retries ok d ?body ()")
    case (Inl e)
    then show ?thesis using assms by (simp add: addDefectiveItem_def)
  next
    case (Inr r)
    obtain vars' d' where r: "r = (vars', d')" by (cases r)
    have s: "safeTx t" if "?body vars newTransaction = Inr (v, t)" for vars v t
      using that addDefectiveItem_body_safe[OF assms] by (auto split: sum.splits)
    have c: "runTransaction retries ok d ?body () = Inr (vars', d')" using Inr r by simp
    have "stockNonNegative d'"
      by (rule runTransaction_safe[OF assms _ c]) (erule s)
    then show ?thesis using Inr r by (simp add: addDefectiveItem_def)
  qed
next
  show "list_all payloadNonNegative (items invoice) \<longrightarrow>
            stockNonNegative (snd (saveNewInvoice ops retries ok now invoice d))"
  proof
    assume pl: "list_all payloadNonNegative (items invoice)"
    let ?body = "saveNewInvoice_body ops d now invoice"
    show "stockNonNegative (snd (saveNewInvoice ops retries ok now invoice d))"
    proof (cases "runTransaction retries ok d ?body (js_zero ops, [])")
      case (Inl e)
      then show ?thesis using assms by (simp add: saveNewInvoice_def)
    next
      case (Inr r)
      obtain vars' d' where r: "r = (vars', d')" by (cases r)
      have s: "safeTx t" if "?body vars newTransaction = Inr (v, t)" for vars v t
      proof -
        from that obtain acc sid sh where
          l: "itemsLoop ops d (items invoice)
                \<lparr>trans = newTransaction, totalInvoiceCost = fst vars, newItems = snd vars\<rparr> = Inr acc"
          and t: "t = tx_set (SetShipment sid sh) (trans acc)"
          by (auto simp: saveNewInvoice_body_def split: sum.splits)
        have "safeTx (trans acc)" using itemsLoop_safe[OF l assms pl] by simp
        then show ?thesis using t by (simp add: tx_set_safe)
      qed
      have c: "runTransaction retries ok d ?body (js_zero ops, []) = Inr (vars', d')"
        using Inr r by simp
      have "stockNonNegative d'"
        by (rule runTransaction_safe[OF assms _ c]) (erule s)
      then show ?thesis using Inr r by (simp add: saveNewInvoice_def)
    qed
  qed
qed

lemma example_stock: "0 \<le> n \<Longrightarrow> stockNonNegative (exampleDb n)"
  by (simp add: stockNonNegative_def productNonNegative_def exampleDb_def example_qty_other)

theorem stock_never_negative_witness:
  "stockNonNegative (snd (addDefectiveItem 0 True (exampleDefect 3) (exampleDb 5)))
   \<and> stockNonNegative (snd (saveNewInvoice exactOps 0 True ''1714557600123'' (exampleInvoice [exampleItem1]) (exampleDb 5)))"
proof -
  have h: "stockNonNegative (exampleDb 5)" by (simp add: example_stock)
  have p: "list_all payloadNonNegative (items (exampleInvoice [exampleItem1]))"
    by (simp add: exampleInvoice_def exampleItem1_def payloadNonNegative_def)
  show ?thesis
    using stock_never_negative [OF h, of 0 True "exampleDefect 3" "exampleInvoice [exampleItem1]"
        exactOps "''1714557600123''"] p
    by simp
qed

section \<open>saveData\<close>

lemma forEachItem_eq:
  "forEachItem c xs (b, E) = (b @ setWrites c xs, E - set (identifiers xs))"
  by (induction xs arbitrary: b E) (auto split: option.splits)

lemma commitBatch_append: "commitBatch (xs @ ys) s = commitBatch ys (commitBatch xs s)"
  by (simp add: commitBatch_def)

lemma commitBatch_Cons: "commitBatch (w # ws) s = commitBatch ws (applyWrite w s)"
  by (simp add: commitBatch_def)

lemma commitBatch_Nil: "commitBatch [] s = s"
  by (simp add: commitBatch_def)

lemma commit_setWrites:
  "commitBatch (setWrites c xs) s = s\<lparr>collections := (collections s)(c := upsertAll xs (collections s c))\<rparr>"
proof (induction xs arbitrary: s)
  case Nil
  then show ?case by (simp add: commitBatch_Nil)
next
  case (Cons x xs)
  then show ?case
    by (simp add: commitBatch_Cons cong: if_cong split: option.splits)
qed

lemma upsertAll_dom: "dom (upsertAll xs m) = dom m \<union> set (identifiers xs)"
  by (induction xs arbitrary: m) (auto split: option.splits)

lemma upsertAll_other: "i \<notin> set (identifiers xs) \<Longrightarrow> upsertAll xs m i = m i"
  by (induction xs arbitrary: m) (auto split: option.splits)

lemma upsertAll_base: "i \<in> set (identifiers xs) \<Longrightarrow> upsertAll xs m i = upsertAll xs m' i"
proof (induction xs arbitrary: m m')
  case Nil
  then show ?case by simp
next
  case (Cons x xs)
  show ?case
  proof (cases "i \<in> set (identifiers xs)")
    case True
    then show ?thesis using Cons.IH by (auto split: option.splits)
  next
    case False
    then show ?thesis using Cons.prems by (auto simp: upsertAll_other split: option.splits if_splits)
  qed
qed

lemma sync_one:
  "commitBatch (syncCollection s0 (c, Some xs) []) s =
     s\<lparr>collections := (collections s)
          (c := (\<lambda>i. if i \<in> dom (collections s0 c) - set (identifiers xs) then None
                     else upsertAll xs (collections s c) i))\<rparr>"
  by (simp add: syncCollection_def forEachItem_eq commitBatch_append commit_setWrites commitBatch_Cons commitBatch_Nil cong: if_cong)

lemma sync_one_same:
  assumes "collections s c = collections s0 c"
  shows "commitBatch (syncCollection s0 (c, Some xs) []) s =
     s\<lparr>collections := (collections s)(c := upsertAll xs Map.empty)\<rparr>"
proof -
  have "(\<lambda>i. if i \<in> dom (collections s0 c) - set (identifiers xs) then None
                     else upsertAll xs (collections s c) i) = upsertAll xs Map.empty"
  proof
    fix i
    show "(if i \<in> dom (collections s0 c) - set (identifiers xs) then None
                     else upsertAll xs (collections s c) i) = upsertAll xs Map.empty i"
    proof (cases "i \<in> set (identifiers xs)")
      case True
      then show ?thesis using upsertAll_base[OF True] by simp
    next
      case False
      then show ?thesis using assms by (auto simp: upsertAll_other)
    qed
  qed
  then show ?thesis by (simp add: sync_one)
qed

lemma syncCollection_append: "syncCollection s0 e b = b @ syncCollection s0 e []"
  by (cases e) (auto simp: syncCollection_def forEachItem_eq split: option.splits)

lemma foldl_sync:
  "foldl (\<lambda>batch entry. syncCollection s entry batch) b es =
     b @ concat (map (\<lambda>e. syncCollection s e []) es)"
proof (induction es arbitrary: b)
  case Nil
  then show ?case by simp
next
  case (Cons e es)
  show ?case
    using syncCollection_append [of s e b] by (simp add: Cons.IH)
qed

lemma sync_all:
  assumes "distinct (map fst es)"
      and "\<And>e. e \<in> set es \<Longrightarrow> collections s (fst e) = collections s0 (fst e)"
  shows "commitBatch (concat (map (\<lambda>e. syncCollection s0 e []) es)) s =
     s\<lparr>collections := (\<lambda>c. case map_of es c of
                               Some (Some xs) \<Rightarrow> upsertAll xs Map.empty
                             | _ \<Rightarrow> collections s c)\<rparr>"
  using assms
proof (induction es arbitrary: s)
  case Nil
  then show ?case by (simp add: commitBatch_Nil)
next
  case (Cons e es)
  obtain c d where e: "e = (c, d)" by (cases e)
  have notin: "c \<notin> fst ` set es" using Cons.prems(1) e by simp
  show ?case
  proof (cases d)
    case None
    have "commitBatch (concat (map (\<lambda>e. syncCollection s0 e []) es)) s =
            s\<lparr>collections := (\<lambda>c. case map_of es c of
                               Some (Some xs) \<Rightarrow> upsertAll xs Map.empty
                             | _ \<Rightarrow> collections s c)\<rparr>"
      using Cons.IH[of s] Cons.prems by simp
    moreover have "map_of es c = None" using notin by (simp add: map_of_eq_None_iff)
    ultimately show ?thesis using e None
      by (auto simp: syncCollection_def commitBatch_Nil fun_eq_iff split: option.splits)
  next
    case (Some xs)
    let ?s1 = "s\<lparr>collections := (collections s)(c := upsertAll xs Map.empty)\<rparr>"
    have same: "collections s c = collections s0 c" using Cons.prems(2)[of e] e by simp
    have s1: "commitBatch (syncCollection s0 (c, Some xs) []) s = ?s1"
      using sync_one_same[OF same] .
    have pre: "\<And>e'. e' \<in> set es \<Longrightarrow> collections ?s1 (fst e') = collections s0 (fst e')"
      using Cons.prems(2) notin by auto
    have "commitBatch (concat (map (\<lambda>e. syncCollection s0 e []) es)) ?s1 =
            ?s1\<lparr>collections := (\<lambda>c. case map_of es c of
                               Some (Some xs) \<Rightarrow> upsertAll xs Map.empty
                             | _ \<Rightarrow> collections ?s1 c)\<rparr>"
      using Cons.IH[of ?s1] Cons.prems(1) pre by simp
    moreover have "map_of es c = None" using notin by (simp add: map_of_eq_None_iff)
    ultimately show ?thesis using e Some s1
      by (auto simp: commitBatch_append fun_eq_iff split: option.splits)
  qed
qed

lemma distinct_collections: "distinct (map fst (collectionsOf st))"
  by (simp add: collectionsOf_def)

text \<open>
  What an accepted run of saveData leaves: every collection the state defines holds the
  incoming records that carry an identifier, the others are untouched, and the
  configuration document is merged with the state's values.
\<close>

lemma saveData_effect:
  "saveData True st s =
     s\<lparr>collections := (\<lambda>c. case map_of (collectionsOf st) c of
                               Some (Some xs) \<Rightarrow> upsertAll xs Map.empty
                             | _ \<Rightarrow> collections s c),
       config := setMerge (configData st) (config s)\<rparr>"
proof -
  let ?s1 = "s\<lparr>config := setMerge (configData st) (config s)\<rparr>"
  have "commitBatch (concat (map (\<lambda>e. syncCollection s e []) (collectionsOf st))) ?s1 =
     ?s1\<lparr>collections := (\<lambda>c. case map_of (collectionsOf st) c of
                               Some (Some xs) \<Rightarrow> upsertAll xs Map.empty
                             | _ \<Rightarrow> collections ?s1 c)\<rparr>"
    by (rule sync_all[OF distinct_collections]) simp
  then show ?thesis
    by (simp add: saveData_def saveData_batch_def foldl_sync commitBatch_Cons cong: option.case_cong)
qed

lemma set_identifiers:
  "set (identifiers xs) = {i. i \<noteq> [] \<and> (\<exists>x\<in>set xs. item_id x = Some i)}"
  by (induction xs) (auto split: option.splits)

lemma upsertAll_in:
  "i \<in> set (identifiers xs) \<Longrightarrow> \<exists>y\<in>set xs. item_id y = Some i \<and> upsertAll xs m i = Some y"
proof (induction xs arbitrary: m)
  case Nil
  then show ?case by simp
next
  case (Cons x xs)
  show ?case
  proof (cases "i \<in> set (identifiers xs)")
    case True
    then show ?thesis using Cons.IH by (auto split: option.splits)
  next
    case False
    then show ?thesis using Cons.prems by (auto simp: upsertAll_other split: option.splits if_splits)
  qed
qed

lemma identified_setWrites: "list_all identified (setWrites c xs)"
  by (induction xs) (auto simp: identified_def split: option.splits)

lemma identified_sync: "list_all identified (syncCollection s e [])"
  by (cases e) (auto simp: syncCollection_def forEachItem_eq identified_setWrites identified_def split: option.splits)

lemma identified_concat: "list_all identified (concat (map (\<lambda>e. syncCollection s e []) es))"
  by (induction es) (simp_all add: identified_sync)

lemma identified_batch: "list_all identified (saveData_batch st s)"
  by (simp add: saveData_batch_def foldl_sync identified_concat) (simp add: identified_def)

lemma collection_effect:
  assumes "(c, Some xs) \<in> set (collectionsOf st)"
  shows "collections (saveData True st s) c = upsertAll xs Map.empty"
proof -
  have "map_of (collectionsOf st) c = Some (Some xs)"
    using distinct_collections assms by (rule map_of_is_SomeI)
  then show ?thesis by (simp add: saveData_effect)
qed

text \<open>
  C6. For every collection saveData syncs (one the in-memory state defines), after a
  commit the store accepted the collection's identifiers are exactly the identifiers of the
  incoming records that carry one: every such record's identifier holds an incoming record
  with that identifier, every stored identifier absent from the incoming records is
  gone, and the batch holds no write for a record without an identifier.
\<close>

theorem saveData_syncs_collection:
  assumes "(c, Some xs) \<in> set (collectionsOf st)"
  shows "dom (collections (saveData True st s) c) = {i. i \<noteq> [] \<and> (\<exists>x\<in>set xs. item_id x = Some i)}
       \<and> (\<forall>x\<in>set xs. \<forall>i. item_id x = Some i \<and> i \<noteq> [] \<longrightarrow>
            (\<exists>y\<in>set xs. item_id y = Some i \<and> collections (saveData True st s) c i = Some y))
       \<and> (\<forall>i\<in>dom (collections s c). (\<forall>x\<in>set xs. item_id x \<noteq> Some i) \<longrightarrow>
            collections (saveData True st s) c i = None)
       \<and> list_all identified (saveData_batch st s)"
proof -
  have eff: "collections (saveData True st s) c = upsertAll xs Map.empty"
    using assms by (rule collection_effect)
  have 1: "dom (collections (saveData True st s) c) = {i. i \<noteq> [] \<and> (\<exists>x\<in>set xs. item_id x = Some i)}"
    by (simp add: eff upsertAll_dom set_identifiers)
  have 2: "\<forall>x\<in>set xs. \<forall>i. item_id x = Some i \<and> i \<noteq> [] \<longrightarrow>
            (\<exists>y\<in>set xs. item_id y = Some i \<and> collections (saveData True st s) c i = Some y)"
  proof (intro ballI allI impI)
    fix x i assume "x \<in> set xs" "item_id x = Some i \<and> i \<noteq> []"
    then have "i \<in> set (identifiers xs)" by (auto simp: set_identifiers)
    then show "\<exists>y\<in>set xs. item_id y = Some i \<and> collections (saveData True st s) c i = Some y"
      unfolding eff by (rule upsertAll_in)
  qed
  have 3: "\<forall>i\<in>dom (collections s c). (\<forall>x\<in>set xs. item_id x \<noteq> Some i) \<longrightarrow>
            collections (saveData True st s) c i = None"
  proof (intro ballI impI)
    fix i assume "\<forall>x\<in>set xs. item_id x \<noteq> Some i"
    then have "i \<notin> set (identifiers xs)" by (auto simp: set_identifiers)
    then show "collections (saveData True st s) c i = None"
      by (simp add: eff upsertAll_other)
  qed
  from 1 2 3 identified_batch [of st s] show ?thesis by (intro conjI)
qed

text \<open>
  The spec's scenario: the state holds records 1 and 2 (and one without an identifier),
  the store holds 1, 2 and 3.
\<close>

lemma example_identifiers:
  "{i. i \<noteq> [] \<and> (\<exists>x\<in>set [exampleItem ''1'', exampleItem ''2'', \<lparr>item_id = None, item_data = ''no id''\<rparr>].
       item_id x = Some i)} = {''1'', ''2''}"
  by (simp add: exampleItem_def) blast

theorem saveData_syncs_collection_witness:
  "dom (collections (saveData True exampleState exampleStore) ''products'') = {''1'', ''2''}
   \<and> collections (saveData True exampleState exampleStore) ''products'' ''1'' = Some (exampleItem ''1'')
   \<and> collections (saveData True exampleState exampleStore) ''products'' ''3'' = None"
proof -
  let ?xs = "[exampleItem ''1'', exampleItem ''2'', \<lparr>item_id = None, item_data = ''no id''\<rparr>]"
  have h: "(''products'', Some ?xs) \<in> set (collectionsOf exampleState)"
    by (simp add: collectionsOf_def exampleState_def)
  note t = saveData_syncs_collection [OF h, of exampleStore]
  have d: "dom (collections (saveData True exampleState exampleStore) ''products'') = {''1'', ''2''}"
    using t [THEN conjunct1] by (simp only: example_identifiers)
  have "\<exists>y\<in>set ?xs. item_id y = Some ''1'' \<and>
          collections (saveData True exampleState exampleStore) ''products'' ''1'' = Some y"
    using t [THEN conjunct2, THEN conjunct1, rule_format, of "exampleItem ''1''" "''1''"]
    by (simp add: exampleItem_def)
  then have one: "collections (saveData True exampleState exampleStore) ''products'' ''1'' = Some (exampleItem ''1'')"
    by (simp add: exampleItem_def)
  have "''3'' \<notin> dom (collections (saveData True exampleState exampleStore) ''products'')"
    by (simp only: d) simp
  then have three: "collections (saveData True exampleState exampleStore) ''products'' ''3'' = None"
    by (simp add: domIff)
  from d one three show ?thesis by (intro conjI)
qed

lemma mergeVal_idem: "mergeVal v (Some (mergeVal v old)) = mergeVal v old"
proof (induction v arbitrary: old)
  case (CMap m)
  show ?case
  proof (cases "m = Map.empty")
    case True
    then show ?thesis by simp
  next
    case False
    have ih: "\<And>k x o'. m k = Some x \<Longrightarrow> mergeVal x (Some (mergeVal x o')) = mergeVal x o'"
      using CMap.IH by (metis option.set_intros rangeI)
    let ?g = "\<lambda>ol k. case map_option mergeVal (m k) of
                         None \<Rightarrow> (case ol of Some (CMap om) \<Rightarrow> om k | _ \<Rightarrow> None)
                       | Some f \<Rightarrow> Some (f (case ol of Some (CMap om) \<Rightarrow> om k | _ \<Rightarrow> None))"
    have m1: "mergeVal (CMap m) ol = CMap (?g ol)" for ol using False by simp
    have "?g (Some (CMap (?g old))) k = ?g old k" for k
      by (cases "m k") (simp_all add: ih)
    then have "?g (Some (CMap (?g old))) = ?g old" by (rule ext)
    then show ?thesis by (simp only: m1)
  qed
qed simp_all

lemma setMerge_idem: "setMerge data (setMerge data old) = setMerge data old"
  by (rule ext) (simp add: setMerge_def mergeVal_idem split: option.splits)

lemma saveData_twice: "saveData True st (saveData True st s) = saveData True st s"
proof -
  let ?f = "\<lambda>m c. case map_of (collectionsOf st) c of
                      Some (Some xs) \<Rightarrow> upsertAll xs Map.empty
                    | _ \<Rightarrow> m c"
  have f: "?f (?f m) = ?f m" for m :: "string \<Rightarrow> docId \<rightharpoonup> 'a item"
    by (rule ext) (simp split: option.splits)
  have 1: "saveData True st s = s\<lparr>collections := ?f (collections s),
       config := setMerge (configData st) (config s)\<rparr>" for s :: "'a store"
    by (rule saveData_effect)
  show ?thesis
    by (simp only: 1 [of "s\<lparr>collections := ?f (collections s),
       config := setMerge (configData st) (config s)\<rparr>"] 1 [of s])
       (simp add: f setMerge_idem cong: option.case_cong)
qed

text \<open>
  C7. Bulk Sync is idempotent: run again on the state it has just been run on, with the same
  in-memory working set and no other writer in between, saveData leaves the store as the
  first run left it. This holds when the store accepts both commits and when it rejects
  both, and also for any run that follows an accepted one.
\<close>

theorem saveData_idempotent:
  "saveData ok st (saveData ok st s) = saveData ok st s
   \<and> saveData ok st (saveData True st s) = saveData True st s"
  by (cases ok) (simp_all add: saveData_twice, simp_all add: saveData_def)

lemma config_saveData: "config (saveData True st s) = setMerge (configData st) (config s)"
  by (simp add: saveData_effect)

text \<open>
  C10. saveData persists the in-memory categories with every 'All' filtered out: after a
  run the store accepted, the configuration document's categories are exactly the filtered
  list, so they do not contain 'All'. A rejected run writes nothing, and saveShift, the
  other writer of the configuration document, leaves the categories as they are; so the
  list contains 'All' after a run only if the run was rejected and it did before.
\<close>

theorem categories_never_list_All:
  "config (saveData True st s) ''categories''
     = Some (CList (map CText (filter (\<lambda>c. c \<noteq> ''All'') (st_categories st))))
   \<and> listsAll (config (saveData ok st s)) = (\<not> ok \<and> listsAll (config s))
   \<and> listsAll (config (snd (saveShift a b x s'))) = listsAll (config s')"
proof -
  have 1: "config (saveData True st s) ''categories''
     = Some (CList (map CText (filter (\<lambda>c. c \<noteq> ''All'') (st_categories st))))"
    by (simp add: config_saveData setMerge_def configData_def savedCategories_def)
  have 2: "listsAll (config (saveData ok st s)) = (\<not> ok \<and> listsAll (config s))"
  proof (cases ok)
    case True
    then show ?thesis using 1 by (auto simp: listsAll_def)
  next
    case False
    then show ?thesis by (simp add: saveData_def)
  qed
  have 3: "listsAll (config (snd (saveShift a b x s'))) = listsAll (config s')"
    by (simp add: saveShift_def listsAll_def setMerge_def Let_def split: option.splits)
  from 1 2 3 show ?thesis by (intro conjI)
qed

section \<open>saveShift\<close>

lemma saveShift_second_rejected:
  assumes "item_id x = Some i" and "i \<noteq> []"
  shows "saveShift True False x s =
     (Inl StoreRejected,
      s\<lparr>collections := (collections s)(''shifts'' := (collections s ''shifts'')(i \<mapsto> x))\<rparr>)"
  using assms by (simp add: saveShift_def)

text \<open>
  C8 says the shift document and the lastShiftReportTime marker are written both or
  neither. saveShift awaits two separate writes; when the store accepts the first and
  rejects the second, saveShift reports a failure, the shift document is in the store
  and the marker is not.
\<close>

theorem saveShift_partial_write:
  "fst (saveShift True False exampleShift emptyShiftStore) = Inl StoreRejected
   \<and> collections (snd (saveShift True False exampleShift emptyShiftStore)) ''shifts'' ''shift1''
       = Some exampleShift
   \<and> config (snd (saveShift True False exampleShift emptyShiftStore)) ''lastShiftReportTime'' = None"
  by (simp add: saveShift_def exampleShift_def emptyShiftStore_def)

end
